(* ===== verification/Prelude.thy ===== *)
theory Prelude
  imports Main "HOL-Library.Word" "HOL-Library.Sublist" "HOL-Library.Char_ord"
    "HOL-Library.List_Lexorder"
begin

text \<open>
  Shared vocabulary of the development: the machine integer types of the C++ sources, the result
  type of operations that may throw, and generic lemmas on lists and words that several components
  use.  The collections declared here gather the facts the component proofs rewrite with.
\<close>

named_theorems path_simps \<open>equations of the filesystem path operations\<close>
named_theorems bytes_simps \<open>reads and writes of byte fields\<close>

section \<open>Machine integers\<close>

type_synonym u8 = "8 word"
type_synonym u16 = "16 word"
type_synonym u32 = "32 word"
type_synonym u64 = "64 word"

section \<open>Results of operations that may throw\<close>

text \<open>
  A C++ function that throws is modelled by a value of a sum type: \<open>Inl e\<close> for the exception,
  \<open>Inr x\<close> for a normal return.  \<open>then_do\<close> runs the rest of a function body on a normal return and
  propagates the exception otherwise.
\<close>

fun then_do :: "'e + 'a \<Rightarrow> ('a \<Rightarrow> 'e + 'b) \<Rightarrow> 'e + 'b" where
  "then_do (Inl e) f = Inl e"
| "then_do (Inr x) f = f x"

lemma then_do_Inr_iff: "then_do r f = Inr y \<longleftrightarrow> (\<exists>x. r = Inr x \<and> f x = Inr y)"
  by (cases r) auto

text \<open>A loop over a container whose body may throw.\<close>

fun fold_result :: "('a \<Rightarrow> 's \<Rightarrow> 'e + 's) \<Rightarrow> 'a list \<Rightarrow> 's \<Rightarrow> 'e + 's" where
  "fold_result f [] s = Inr s"
| "fold_result f (x # xs) s = then_do (f x s) (fold_result f xs)"

lemma fold_result_invariant:
  assumes "fold_result f xs s = Inr s'" "I s"
    and "\<And>x s s'. x \<in> set xs \<Longrightarrow> I s \<Longrightarrow> f x s = Inr s' \<Longrightarrow> I s'"
  shows "I s'"
  using assms
proof (induction xs arbitrary: s)
  case Nil
  then show ?case by simp
next
  case (Cons x xs)
  from Cons.prems(1) obtain t where t: "f x s = Inr t" "fold_result f xs t = Inr s'"
    by (auto simp: then_do_Inr_iff)
  then have "I t" using Cons.prems(2,3) by auto
  with t(2) show ?case using Cons.IH Cons.prems(3) by auto
qed

lemma fold_result_append:
  "fold_result f (xs @ ys) s = then_do (fold_result f xs s) (fold_result f ys)"
proof (induction xs arbitrary: s)
  case (Cons x xs)
  then show ?case by (cases "f x s") auto
qed simp

section \<open>Programs with a global state\<close>

text \<open>
  A function that also changes global variables, and that may never return, is a function from their
  state: \<open>None\<close> when it does not return, and otherwise its result, an exception or a value, with the new
  state, which an exception does not undo.
\<close>

type_synonym ('g, 'e, 'a) program = "'g \<Rightarrow> (('e + 'a) \<times> 'g) option"

definition lift_result :: "'e + 'a \<Rightarrow> ('g, 'e, 'a) program" where
  "lift_result r g = Some (r, g)"

definition and_then :: "('g, 'e, 'a) program \<Rightarrow> ('a \<Rightarrow> ('g, 'e, 'b) program) \<Rightarrow> ('g, 'e, 'b) program" where
  "and_then m f g =
     (case m g of
        None \<Rightarrow> None
      | Some (Inl e, g) \<Rightarrow> Some (Inl e, g)
      | Some (Inr x, g) \<Rightarrow> f x g)"

text \<open>A handler of the exceptions of a function.\<close>

definition rescue :: "('g, 'e, 'a) program \<Rightarrow> ('e \<Rightarrow> ('g, 'e, 'a) program) \<Rightarrow> ('g, 'e, 'a) program" where
  "rescue m h g = (case m g of None \<Rightarrow> None | Some (Inl e, g) \<Rightarrow> h e g | Some (Inr x, g) \<Rightarrow> Some (Inr x, g))"

lemma lift_result_iff [simp]: "lift_result r g = Some (r', g') \<longleftrightarrow> r' = r \<and> g' = g"
  by (auto simp: lift_result_def)

lemma and_then_lift [simp]:
  "and_then (lift_result (Inr x)) f = f x" "and_then (lift_result (Inl e)) f = lift_result (Inl e)"
  by (simp_all add: and_then_def lift_result_def fun_eq_iff)

lemma and_then_returns_iff:
  "and_then m f g = Some (Inr y, g') \<longleftrightarrow> (\<exists>x h. m g = Some (Inr x, h) \<and> f x h = Some (Inr y, g'))"
  by (auto simp: and_then_def split: option.splits sum.splits)

lemma and_then_throws_iff:
  "and_then m f g = Some (Inl e, g') \<longleftrightarrow>
     m g = Some (Inl e, g') \<or> (\<exists>x h. m g = Some (Inr x, h) \<and> f x h = Some (Inl e, g'))"
  by (auto simp: and_then_def split: option.splits sum.splits)

lemma and_then_lifted_returns_iff:
  "and_then (lift_result r) f g = Some (Inr y, g') \<longleftrightarrow> (\<exists>x. r = Inr x \<and> f x g = Some (Inr y, g'))"
  by (auto simp: and_then_returns_iff)

text \<open>A handler that throws, whatever it does before, does not turn a failure into a success.\<close>

lemma rescue_throws_returns:
  assumes "\<And>e g. h e g \<noteq> Some (Inr y, g')"
  shows "rescue m h g = Some (Inr y, g') \<longleftrightarrow> m g = Some (Inr y, g')"
  using assms by (auto simp: rescue_def split: option.splits sum.splits)

section \<open>Common prefixes\<close>

text \<open>
  \<open>std::mismatch\<close> walks two ranges in step and returns the pair of iterators at the first
  difference.  \<open>mismatch_pos\<close> is that position.
\<close>

fun mismatch_pos :: "'a list \<Rightarrow> 'a list \<Rightarrow> nat" where
  "mismatch_pos (x # xs) (y # ys) = (if x = y then Suc (mismatch_pos xs ys) else 0)"
| "mismatch_pos _ _ = 0"

lemma mismatch_pos_le1: "mismatch_pos xs ys \<le> length xs"
  by (induction xs ys rule: mismatch_pos.induct) auto

lemma take_mismatch_pos: "take (mismatch_pos xs ys) xs = take (mismatch_pos xs ys) ys"
  by (induction xs ys rule: mismatch_pos.induct) auto

lemma mismatch_pos_full_iff: "mismatch_pos xs ys = length xs \<longleftrightarrow> prefix xs ys"
  by (induction xs ys rule: mismatch_pos.induct) auto

lemma drop_mismatch_Nil_iff: "drop (mismatch_pos xs ys) xs = [] \<longleftrightarrow> prefix xs ys"
  using mismatch_pos_full_iff [of xs ys] mismatch_pos_le1 [of xs ys] by auto

lemma prefix_take_mismatch:
  assumes "prefix p xs" "prefix p ys"
  shows "prefix p (take (mismatch_pos xs ys) xs)"
  using assms
proof (induction xs ys arbitrary: p rule: mismatch_pos.induct)
  case (1 x xs y ys)
  then show ?case by (cases p) auto
qed auto

lemma mismatch_pos_ge_prefix:
  assumes "prefix p xs" "prefix p ys"
  shows "length p \<le> mismatch_pos xs ys"
proof -
  have "length p \<le> length (take (mismatch_pos xs ys) xs)"
    using prefix_take_mismatch [OF assms] by (rule prefix_length_le)
  then show ?thesis by simp
qed

text \<open>
  Cutting a list back to its common prefix with another one, or by one element when it is a prefix
  itself, keeps every shorter common prefix.
\<close>

definition cut_back :: "'a list \<Rightarrow> 'a list \<Rightarrow> nat" where
  "cut_back xs ps = (if prefix xs ps then length xs - 1 else mismatch_pos xs ps)"

lemma cut_back_keeps:
  assumes "prefix ys xs" "prefix ys ps" "ys \<noteq> []" "ys = xs \<longrightarrow> \<not> prefix xs ps"
  shows "0 < cut_back xs ps"
    and "prefix ys (take (cut_back xs ps) ps)"
    and "strict_prefix (take (cut_back xs ps) ps) xs"
proof -
  have len: "length ys \<le> cut_back xs ps \<and> cut_back xs ps < length xs \<and> cut_back xs ps \<le> mismatch_pos xs ps"
  proof (cases "prefix xs ps")
    case True
    then have "ys \<noteq> xs" using assms(4) by auto
    then have "length ys < length xs" using assms(1) by (auto simp: prefix_def)
    with True show ?thesis
      using mismatch_pos_full_iff [of xs ps] by (auto simp: cut_back_def)
  next
    case False
    then have "mismatch_pos xs ps \<noteq> length xs" by (simp add: mismatch_pos_full_iff)
    with False show ?thesis
      using mismatch_pos_ge_prefix [OF assms(1,2)] mismatch_pos_le1 [of xs ps]
      by (simp add: cut_back_def)
  qed
  with assms(3) show "0 < cut_back xs ps" by (cases ys) auto
  have "take (cut_back xs ps) ps = take (cut_back xs ps) xs"
    using len take_mismatch_pos [of xs ps] by (metis min.absorb1 take_take)
  then show "strict_prefix (take (cut_back xs ps) ps) xs"
    using len by (auto simp: strict_prefix_def take_is_prefix)
  show "prefix ys (take (cut_back xs ps) ps)"
    using assms(2) len by (auto simp: prefix_def)
qed

section \<open>Initial segments of lists\<close>

lemma nth_takeWhile_holds: "i < length (takeWhile P xs) \<Longrightarrow> P (xs ! i)"
  by (metis nth_mem set_takeWhileD takeWhile_nth)

text \<open>The last element of a list that satisfies a predicate, by its position.\<close>

lemma last_filter_position:
  assumes "filter P xs \<noteq> []"
  shows "\<exists>i < length xs. last (filter P xs) = xs ! i \<and> P (xs ! i) \<and>
    (\<forall>j. i < j \<longrightarrow> j < length xs \<longrightarrow> \<not> P (xs ! j))"
  using assms
proof (induction xs rule: rev_induct)
  case (snoc x xs)
  show ?case
  proof (cases "P x")
    case True
    then show ?thesis by (intro exI [of _ "length xs"]) auto
  next
    case False
    with snoc obtain i where "i < length xs" "last (filter P xs) = xs ! i" "P (xs ! i)"
      "\<forall>j. i < j \<longrightarrow> j < length xs \<longrightarrow> \<not> P (xs ! j)" by auto
    with False show ?thesis by (intro exI [of _ i]) (auto simp: nth_append less_Suc_eq)
  qed
qed simp

lemma last_filter_nth:
  assumes "i < length xs" "P (xs ! i)" "\<And>j. i < j \<Longrightarrow> j < length xs \<Longrightarrow> \<not> P (xs ! j)"
  shows "filter P xs \<noteq> []" "last (filter P xs) = xs ! i"
proof -
  show ne: "filter P xs \<noteq> []" using assms by (auto simp: filter_empty_conv)
  then obtain k where k: "k < length xs" "last (filter P xs) = xs ! k" "P (xs ! k)"
    "\<And>j. k < j \<Longrightarrow> j < length xs \<Longrightarrow> \<not> P (xs ! j)"
    using last_filter_position [OF ne] by blast
  have "k = i" using k assms by (metis linorder_neqE_nat)
  with k show "last (filter P xs) = xs ! i" by simp
qed

section \<open>Association lists\<close>

lemma map_of_list_update:
  assumes "i < length xs" "distinct (map fst xs)" "fst (xs ! i) = k"
  shows "map_of (xs[i := (k, v)]) = (map_of xs)(k \<mapsto> v)"
  using assms
proof (induction xs arbitrary: i)
  case (Cons x xs)
  then show ?case
  proof (cases i)
    case (Suc j)
    with Cons.prems have "k \<in> fst ` set xs" by auto
    moreover have "fst x \<notin> fst ` set xs" using Cons.prems(2) by simp
    ultimately have "k \<noteq> fst x" by blast
    with Suc Cons show ?thesis by (cases x) (auto simp: fun_upd_twist)
  qed (cases x, auto)
qed simp

lemma map_of_insert_new:
  assumes "set ys = insert (k, v) (set xs)" "distinct (map fst ys)" "distinct (map fst xs)"
    "k \<notin> fst ` set xs"
  shows "map_of ys = (map_of xs)(k \<mapsto> v)"
proof -
  have "distinct (map fst ((k, v) # xs))" using assms by simp
  then have "map_of ys = map_of ((k, v) # xs)"
    using assms(1,2) by (subst map_of_inject_set) auto
  then show ?thesis by simp
qed

section \<open>Words\<close>

lemma unat_mult_no_wrap:
  fixes a b :: "'a::len word"
  assumes "unat a * unat b < 2 ^ LENGTH('a)"
  shows "unat (a * b) = unat a * unat b"
  using assms by (simp add: unat_word_ariths)

lemma word_of_nat_take_bit:
  "LENGTH('a) \<le> n \<Longrightarrow> (word_of_nat (take_bit n k) :: 'a::len word) = word_of_nat k"
  by (simp add: word_of_nat_eq_iff)

lemma ucast_word_of_nat:
  "LENGTH('b) \<le> LENGTH('a) \<Longrightarrow> (ucast (word_of_nat n :: 'a::len word) :: 'b::len word) = word_of_nat n"
  by (simp add: unsigned_of_nat word_of_nat_take_bit)

section \<open>Step systems\<close>

text \<open>
  What a step relation promises about a state predicate: it holds at the start and every step keeps it.
  Then it holds in every reachable state.
\<close>

locale step_system =
  fixes start :: "'s \<Rightarrow> bool" and step :: "'s \<Rightarrow> 's \<Rightarrow> bool" and inv :: "'s \<Rightarrow> bool"
  assumes start_inv: "start s \<Longrightarrow> inv s"
    and step_inv: "inv s \<Longrightarrow> step s s' \<Longrightarrow> inv s'"
begin

lemma steps_inv: "step\<^sup>*\<^sup>* s s' \<Longrightarrow> inv s \<Longrightarrow> inv s'"
  by (induction rule: rtranclp_induct) (auto intro: step_inv)

lemma reachable_inv: "start s \<Longrightarrow> step\<^sup>*\<^sup>* s s' \<Longrightarrow> inv s'"
  by (blast intro: start_inv steps_inv)

end

end
