(* ===== verification/FsPath.thy ===== *)
theory FsPath
  imports Prelude
begin

text \<open>
  The part of \<open>std::filesystem::path\<close> the server uses: construction from a string, \<open>operator/\<close>,
  \<open>is_relative\<close>, \<open>lexically_normal\<close>, \<open>parent_path\<close>, iteration and conversion back to a string,
  with POSIX semantics.  A path is kept in the generic format of the standard: whether it has a
  root directory, and the file names after it; runs of separators count as one separator, and a
  trailing separator is an empty last name.
\<close>

section \<open>Data and conversions\<close>

datatype fs_path = Path (has_root: bool) (names: "string list")

text \<open>The pieces of a string between the occurrences of a separator.\<close>

fun pieces :: "char \<Rightarrow> string \<Rightarrow> string list" where
  "pieces sep [] = [[]]"
| "pieces sep (c # cs) =
     (if c = sep then [] # pieces sep cs
      else (case pieces sep cs of [] \<Rightarrow> [[c]] | p # ps \<Rightarrow> (c # p) # ps))"

fun join :: "char \<Rightarrow> string list \<Rightarrow> string" where
  "join sep [] = []"
| "join sep [p] = p"
| "join sep (p # q # ps) = p @ sep # join sep (q # ps)"

definition path_of_string :: "string \<Rightarrow> fs_path" where
  "path_of_string s =
     (let rel = dropWhile (\<lambda>c. c = CHR ''/'') s; ps = pieces (CHR ''/'') rel
      in Path (s \<noteq> [] \<and> hd s = CHR ''/'')
              (if rel = [] then [] else filter (\<lambda>p. p \<noteq> []) (butlast ps) @ [last ps]))"

definition string_of_path :: "fs_path \<Rightarrow> string" where
  "string_of_path p = (if has_root p then ''/'' else []) @ join (CHR ''/'') (names p)"

text \<open>The elements an iteration over the path visits; the root directory is one of them.\<close>

definition elems :: "fs_path \<Rightarrow> string list" where
  "elems p = (if has_root p then [''/''] else []) @ names p"

definition is_relative :: "fs_path \<Rightarrow> bool" where
  "is_relative p \<longleftrightarrow> \<not> has_root p"

definition has_filename :: "fs_path \<Rightarrow> bool" where
  "has_filename p \<longleftrightarrow> names p \<noteq> [] \<and> last (names p) \<noteq> []"

section \<open>Operations\<close>

text \<open>
  \<open>operator/\<close>: an absolute right operand replaces the left one; otherwise a separator is added if
  the left operand ends in a file name, and the right operand is appended.
\<close>

definition path_append :: "fs_path \<Rightarrow> fs_path \<Rightarrow> fs_path" where
  "path_append p q =
     (if has_root q then q
      else if has_filename p then
        Path (has_root p) (names p @ (if names q = [] then [[]] else names q))
      else if names q = [] then p
      else Path (has_root p) (butlast (names p) @ names q))"

text \<open>
  \<open>lexically_normal\<close> processes the elements from left to right, with the names kept so far (last
  one first) and whether the result ends in a separator.
\<close>

fun norm_step :: "bool \<Rightarrow> string list \<times> bool \<Rightarrow> string \<Rightarrow> string list \<times> bool" where
  "norm_step root (st, tr) e =
     (if e = ''..'' then
        (case st of
           [] \<Rightarrow> if root then (st, tr) else ([''..''], False)
         | x # xs \<Rightarrow> if x = ''..'' then (e # st, False) else (xs, True))
      else if e = ''.'' \<or> e = [] then (st, True)
      else (e # st, False))"

definition lexically_normal :: "fs_path \<Rightarrow> fs_path" where
  "lexically_normal p =
     (if \<not> has_root p \<and> names p = [] then p
      else case foldl (norm_step (has_root p)) ([], False) (names p) of
        (st, tr) \<Rightarrow>
          if st = [] then (if has_root p then Path True [] else Path False [''.''])
          else if hd st = ''..'' then Path (has_root p) (rev st)
          else Path (has_root p) (rev st @ (if tr then [[]] else [])))"

definition parent_path :: "fs_path \<Rightarrow> fs_path" where
  "parent_path p = (if names p = [] then p else Path (has_root p) (butlast (names p)))"

text \<open>
  The idiom \<open>(path / "").lexically_normal().parent_path()\<close>, which the sources use to normalise a
  path and drop its trailing separator.
\<close>

definition normal_dir :: "fs_path \<Rightarrow> fs_path" where
  "normal_dir p = parent_path (lexically_normal (path_append p (path_of_string [])))"

text \<open>\<open>std::accumulate(first, last, init, std::divides{})\<close> over path elements.\<close>

definition accumulate_path :: "fs_path \<Rightarrow> string list \<Rightarrow> fs_path" where
  "accumulate_path init es = foldl (\<lambda>p e. path_append p (path_of_string e)) init es"

section \<open>Well-formed and normal paths\<close>

text \<open>
  \<open>path_wf\<close> is the representation invariant: no name holds a separator and only the last one can
  be empty.  \<open>clean_name\<close> is a name that denotes an entry of its directory, neither the directory
  itself nor its parent.
\<close>

definition path_wf :: "fs_path \<Rightarrow> bool" where
  "path_wf p \<longleftrightarrow> (\<forall>n \<in> set (names p). CHR ''/'' \<notin> set n) \<and> [] \<notin> set (butlast (names p)) \<and>
     names p \<noteq> [[]]"

definition clean_name :: "string \<Rightarrow> bool" where
  "clean_name n \<longleftrightarrow> n \<noteq> [] \<and> n \<noteq> ''.'' \<and> n \<noteq> ''..'' \<and> CHR ''/'' \<notin> set n"

definition normal_abs :: "fs_path \<Rightarrow> bool" where
  "normal_abs p \<longleftrightarrow> has_root p \<and> list_all clean_name (names p)"

lemma normal_abs_wf: "normal_abs p \<Longrightarrow> path_wf p"
  by (cases "names p" rule: rev_cases)
    (auto simp: normal_abs_def path_wf_def list_all_iff clean_name_def)

lemma elems_normal: "normal_abs p \<Longrightarrow> elems p = ''/'' # names p"
  by (simp add: elems_def normal_abs_def)

section \<open>Splitting and joining\<close>

lemma pieces_not_Nil [simp]: "pieces sep s \<noteq> []"
  by (induction s) (auto split: list.splits)

lemma pieces_no_sep: "sep \<notin> set s \<Longrightarrow> pieces sep s = [s]"
  by (induction s) auto

lemma pieces_piece_no_sep: "p \<in> set (pieces sep s) \<Longrightarrow> sep \<notin> set p"
proof (induction s arbitrary: p)
  case (Cons c cs)
  then show ?case by (cases "pieces sep cs") (auto split: if_splits)
qed simp

lemma join_Cons: "ps \<noteq> [] \<Longrightarrow> join sep (p # ps) = p @ sep # join sep ps"
  by (cases ps) auto

lemma join_pieces: "join sep (pieces sep s) = s"
proof (induction s)
  case (Cons c cs)
  show ?case
  proof (cases "pieces sep cs")
    case (Cons p ps)
    with Cons.IH show ?thesis by (cases ps) (auto simp: join_Cons)
  qed simp
qed simp

lemma pieces_append_sep: "sep \<notin> set p \<Longrightarrow> pieces sep (p @ sep # s) = p # pieces sep s"
  by (induction p) auto

lemma pieces_join:
  assumes "ps \<noteq> []" "\<And>p. p \<in> set ps \<Longrightarrow> sep \<notin> set p"
  shows "pieces sep (join sep ps) = ps"
  using assms by (induction sep ps rule: join.induct) (auto simp: pieces_no_sep pieces_append_sep)

section \<open>Conversion round trip\<close>

lemma path_of_string_Nil [path_simps]: "path_of_string [] = Path False []"
  by (simp add: path_of_string_def)

lemma path_of_string_root [path_simps]: "path_of_string ''/'' = Path True []"
  by (simp add: path_of_string_def)

lemma path_of_string_name:
  assumes "n \<noteq> []" "CHR ''/'' \<notin> set n"
  shows "path_of_string n = Path False [n]"
proof -
  have "dropWhile (\<lambda>c. c = CHR ''/'') n = n"
    using assms by (cases n) auto
  then show ?thesis using assms by (cases n) (auto simp: path_of_string_def pieces_no_sep)
qed

lemma path_wf_path_of_string: "path_wf (path_of_string s)"
proof -
  define rel where "rel = dropWhile (\<lambda>c. c = CHR ''/'') s"
  define ps where "ps = pieces (CHR ''/'') rel"
  have no_sep: "CHR ''/'' \<notin> set p" if "p \<in> set ps" for p
    using that unfolding ps_def by (rule pieces_piece_no_sep)
  have "filter (\<lambda>p. p \<noteq> []) (butlast ps) @ [last ps] \<noteq> [[]]" if "rel \<noteq> []"
  proof -
    from that obtain c cs where rel: "rel = c # cs" by (cases rel) auto
    then have c: "c \<noteq> CHR ''/''"
      unfolding rel_def by (simp add: dropWhile_eq_Cons_conv)
    obtain q qs where "pieces (CHR ''/'') cs = q # qs"
      by (cases "pieces (CHR ''/'') cs") auto
    with rel c have "ps = (c # q) # qs" by (simp add: ps_def)
    then show ?thesis by (cases qs) auto
  qed
  moreover have "CHR ''/'' \<notin> set n" if "n \<in> set (filter (\<lambda>p. p \<noteq> []) (butlast ps) @ [last ps])" for n
  proof -
    have "last ps \<in> set ps" by (simp add: ps_def)
    then have "n \<in> set ps" using that in_set_butlastD by fastforce
    then show ?thesis by (rule no_sep)
  qed
  moreover have "path_of_string s = Path (s \<noteq> [] \<and> hd s = CHR ''/'')
      (if rel = [] then [] else filter (\<lambda>p. p \<noteq> []) (butlast ps) @ [last ps])"
    unfolding path_of_string_def Let_def rel_def [symmetric] ps_def [symmetric] ..
  ultimately show ?thesis
    by (simp add: path_wf_def del: set_append)
qed

lemma join_head_no_sep:
  assumes "path_wf (Path r ns)" "ns \<noteq> []"
  shows "join (CHR ''/'') ns \<noteq> [] \<and> hd (join (CHR ''/'') ns) \<noteq> CHR ''/''"
proof -
  obtain n ms where ns: "ns = n # ms" using assms(2) by (cases ns) auto
  with assms(1) have "n \<noteq> []" "CHR ''/'' \<notin> set n" by (cases ms; auto simp: path_wf_def)+
  then have "hd n \<noteq> CHR ''/''" by (metis list.set_sel(1))
  with ns \<open>n \<noteq> []\<close> show ?thesis by (cases ms) auto
qed

lemma filter_nonempty_butlast:
  "path_wf (Path r ns) \<Longrightarrow> filter (\<lambda>p. p \<noteq> []) (butlast ns) = butlast ns"
  by (auto simp: path_wf_def filter_id_conv)

lemma path_of_string_of_path:
  assumes "path_wf p"
  shows "path_of_string (string_of_path p) = p"
proof (cases "names p = []")
  case True
  then show ?thesis
    by (cases p) (auto simp: string_of_path_def path_of_string_def)
next
  case False
  define j where "j = join (CHR ''/'') (names p)"
  have wf: "path_wf (Path (has_root p) (names p))" using assms by simp
  have j: "j \<noteq> []" "hd j \<noteq> CHR ''/''"
    using join_head_no_sep [OF wf False] by (auto simp: j_def)
  then have "dropWhile (\<lambda>c. c = CHR ''/'') j = j" by (cases j) auto
  moreover have "pieces (CHR ''/'') j = names p"
    unfolding j_def using assms by (intro pieces_join False) (auto simp: path_wf_def)
  moreover have "dropWhile (\<lambda>c. c = CHR ''/'') (string_of_path p) = dropWhile (\<lambda>c. c = CHR ''/'') j"
    by (simp add: string_of_path_def j_def)
  moreover have "(string_of_path p \<noteq> [] \<and> hd (string_of_path p) = CHR ''/'') = has_root p"
    using j by (simp add: string_of_path_def j_def)
  ultimately have "path_of_string (string_of_path p) =
      Path (has_root p) (filter (\<lambda>p. p \<noteq> []) (butlast (names p)) @ [last (names p)])"
    using j(1) by (simp only: path_of_string_def Let_def if_False)
  then show ?thesis using False filter_nonempty_butlast [OF wf] by simp
qed

section \<open>Normalisation of absolute paths\<close>

text \<open>
  What normalisation of an absolute path means: read the names as moves in a directory tree, where
  \<open>..\<close> leaves a directory (and stays at the root), \<open>.\<close> and the empty name stay.
\<close>

fun resolve_step :: "string list \<Rightarrow> string \<Rightarrow> string list" where
  "resolve_step st e =
     (if e = ''..'' then tl st else if e = ''.'' \<or> e = [] then st else e # st)"

definition resolve :: "string list \<Rightarrow> string list" where
  "resolve ns = rev (foldl resolve_step [] ns)"

lemma norm_step_resolve:
  assumes "''..'' \<notin> set st"
  shows "fst (norm_step True (st, tr) e) = resolve_step st e"
    and "''..'' \<notin> set (fst (norm_step True (st, tr) e))"
  using assms by (cases st; auto)+

lemma foldl_norm_resolve:
  assumes "''..'' \<notin> set st"
  shows "fst (foldl (norm_step True) (st, tr) ns) = foldl resolve_step st ns \<and>
    ''..'' \<notin> set (fst (foldl (norm_step True) (st, tr) ns))"
  using assms
proof (induction ns arbitrary: st tr)
  case (Cons e ns)
  obtain st' tr' where step: "norm_step True (st, tr) e = (st', tr')"
    by (cases "norm_step True (st, tr) e") auto
  with norm_step_resolve [OF Cons.prems, of tr e]
  have "st' = resolve_step st e" "''..'' \<notin> set st'" by auto
  with Cons.IH [of st' tr'] step show ?case
    by (auto simp del: norm_step.simps resolve_step.simps)
qed simp

lemma resolve_step_clean:
  "list_all clean_name st \<Longrightarrow> CHR ''/'' \<notin> set e \<Longrightarrow> list_all clean_name (resolve_step st e)"
  by (cases st) (auto simp: clean_name_def)

lemma resolve_clean:
  assumes "\<And>n. n \<in> set ns \<Longrightarrow> CHR ''/'' \<notin> set n"
  shows "list_all clean_name (resolve ns)"
proof -
  have "list_all clean_name st \<Longrightarrow> list_all clean_name (foldl resolve_step st ns)" for st
    using assms
  proof (induction ns arbitrary: st)
    case (Cons e ns)
    then show ?case using resolve_step_clean by auto
  qed simp
  then show ?thesis by (simp add: resolve_def)
qed

lemma resolve_id: "list_all clean_name ns \<Longrightarrow> resolve ns = ns"
proof -
  have "list_all clean_name ns \<Longrightarrow> foldl resolve_step st ns = rev ns @ st" for st
    by (induction ns arbitrary: st) (auto simp: clean_name_def)
  then show "list_all clean_name ns \<Longrightarrow> resolve ns = ns" by (simp add: resolve_def)
qed

lemma resolve_snoc_empty: "resolve (ns @ [[]]) = resolve ns"
  by (simp add: resolve_def)

lemma normal_trailing:
  assumes "ns = [] \<or> last ns = []"
  shows "parent_path (lexically_normal (Path True ns)) = Path True (resolve ns)"
proof (cases ns rule: rev_cases)
  case Nil
  then show ?thesis by (simp add: lexically_normal_def parent_path_def resolve_def)
next
  case (snoc ms e)
  with assms have ns: "ns = ms @ [[]]" by simp
  define st where "st = fst (foldl (norm_step True) ([], False) ms)"
  have st: "st = foldl resolve_step [] ms" "''..'' \<notin> set st"
    using foldl_norm_resolve [of "[]" False ms] unfolding st_def by auto
  have "foldl (norm_step True) ([], False) ns = (st, True)"
    by (cases "foldl (norm_step True) ([], False) ms") (simp add: ns st_def)
  moreover have "hd st \<noteq> ''..''" if "st \<noteq> []"
  proof
    assume "hd st = ''..''"
    then have "''..'' \<in> set st" using hd_in_set [OF that] by simp
    with st(2) show False by simp
  qed
  ultimately show ?thesis
    by (simp add: lexically_normal_def parent_path_def ns resolve_snoc_empty resolve_def st(1)
        butlast_append)
qed

lemma lexically_normal_abs:
  assumes "has_root p"
  obtains t where "lexically_normal p = Path True (resolve (names p) @ t)"
    "t = [] \<or> t = [[]] \<and> resolve (names p) \<noteq> []"
proof -
  obtain st tr where fold: "foldl (norm_step True) ([], False) (names p) = (st, tr)"
    by (cases "foldl (norm_step True) ([], False) (names p)") auto
  have st: "st = foldl resolve_step [] (names p)" "''..'' \<notin> set st"
    using foldl_norm_resolve [of "[]" False "names p"] fold by auto
  then have "st = [] \<or> hd st \<noteq> ''..''" by (metis hd_in_set)
  then have "lexically_normal p = Path True (resolve (names p) @ (if st = [] \<or> \<not> tr then [] else [[]]))"
    using assms fold st(1) by (auto simp: lexically_normal_def resolve_def)
  then show thesis using that st(1) by (auto simp: resolve_def split: if_splits)
qed

lemma path_wf_clean:
  assumes "list_all clean_name ns" "t = [] \<or> t = [[]] \<and> ns \<noteq> []"
  shows "path_wf (Path r (ns @ t))"
proof -
  have "CHR ''/'' \<notin> set n" "n \<noteq> []" if "n \<in> set ns" for n
    using that assms(1) by (auto simp: list_all_iff clean_name_def)
  then show ?thesis
    using assms(2) by (auto simp: path_wf_def butlast_append dest: in_set_butlastD)
qed

lemma normal_dir_abs:
  assumes "has_root p"
  shows "normal_dir p = Path True (resolve (names p))"
proof (cases "has_filename p")
  case True
  then have "path_append p (path_of_string []) = Path True (names p @ [[]])"
    using assms by (simp add: path_append_def path_of_string_Nil)
  then show ?thesis
    by (simp add: normal_dir_def normal_trailing resolve_snoc_empty)
next
  case False
  then have "path_append p (path_of_string []) = Path True (names p)"
    using assms by (cases p) (simp add: path_append_def path_of_string_Nil)
  with False show ?thesis
    by (simp add: normal_dir_def normal_trailing has_filename_def)
qed

lemma normal_dir_normal: "has_root p \<Longrightarrow> path_wf p \<Longrightarrow> normal_abs (normal_dir p)"
  by (auto simp: normal_dir_abs normal_abs_def path_wf_def intro: resolve_clean)

lemma normal_dir_id: "normal_abs p \<Longrightarrow> normal_dir p = p"
  by (cases p) (simp add: normal_dir_abs normal_abs_def resolve_id)

section \<open>Appending elements\<close>

lemma path_wf_append: "path_wf p \<Longrightarrow> path_wf q \<Longrightarrow> path_wf (path_append p q)"
  by (cases p; cases q; cases "names p" rule: rev_cases; cases "names q" rule: rev_cases)
    (auto simp: path_append_def path_wf_def has_filename_def butlast_append)

lemma has_root_append: "has_root (path_append p q) \<longleftrightarrow> has_root p \<or> has_root q"
  by (simp add: path_append_def)

text \<open>Appending clean names one by one with \<open>operator/\<close> appends them to the names of the path.\<close>

lemma accumulate_clean:
  assumes "list_all clean_name es" "names p = [] \<or> last (names p) \<noteq> []"
  shows "accumulate_path p es = Path (has_root p) (names p @ es)"
  using assms
proof (induction es arbitrary: p)
  case Nil
  then show ?case by (simp add: accumulate_path_def)
next
  case (Cons e es)
  then have e: "e \<noteq> []" "CHR ''/'' \<notin> set e" by (auto simp: clean_name_def)
  have "path_append p (path_of_string e) = Path (has_root p) (names p @ [e])"
    using Cons.prems(2) e
    by (auto simp: path_of_string_name path_append_def has_filename_def)
  moreover have "accumulate_path (Path (has_root p) (names p @ [e])) es =
      Path (has_root p) ((names p @ [e]) @ es)"
    using Cons.IH [of "Path (has_root p) (names p @ [e])"] Cons.prems(1) e by simp
  ultimately show ?case by (simp add: accumulate_path_def)
qed

lemma accumulate_from_root:
  assumes "list_all clean_name es"
  shows "accumulate_path (Path True []) (''/'' # es) = Path True es"
    and "accumulate_path (Path True []) es = Path True es"
proof -
  show "accumulate_path (Path True []) es = Path True es"
    using accumulate_clean [OF assms, of "Path True []"] by simp
  then show "accumulate_path (Path True []) (''/'' # es) = Path True es"
    by (simp add: accumulate_path_def path_of_string_root path_append_def)
qed

end
