(* ===== verification/OrderedMap.thy ===== *)
theory OrderedMap
  imports FsPath
begin

text \<open>
  The order on paths (\<open>Configuration::ComparePathSegments\<close>, config.hpp) and the operations of
  \<open>std::map\<close> the server uses with it.  A map is its sequence of entries in key order and an iterator
  is a position in that sequence, the end iterator being its length.  The laws the clients of the
  map rely on are stated and proved once, in the locales \<open>key_order\<close> and \<open>segment_order\<close>, and the
  path order is shown to satisfy them.
\<close>

section \<open>The order on paths\<close>

text \<open>
  \<open>*left_it < *right_it\<close> compares two elements of an iteration as paths: one with a root directory
  is greater than one without, and otherwise the names compare byte by byte.
\<close>

definition rooted_elem :: "string \<Rightarrow> bool" where
  "rooted_elem a \<longleftrightarrow> a \<noteq> [] \<and> hd a = CHR ''/''"

definition elem_less :: "string \<Rightarrow> string \<Rightarrow> bool" where
  "elem_less a b =
     (if \<not> rooted_elem a \<and> rooted_elem b then True
      else if rooted_elem a \<and> \<not> rooted_elem b then False
      else a < b)"

definition ComparePathSegments :: "fs_path \<Rightarrow> fs_path \<Rightarrow> bool" where
  "ComparePathSegments left right =
     (let ls = elems left; rs = elems right; n = mismatch_pos ls rs;
          left_it = drop n ls; right_it = drop n rs
      in if left_it = [] then right_it \<noteq> []
         else if right_it = [] then False
         else elem_less (hd left_it) (hd right_it))"

section \<open>Operations of an ordered map\<close>

definition map_upper_bound :: "('k \<Rightarrow> 'k \<Rightarrow> bool) \<Rightarrow> 'k \<Rightarrow> ('k \<times> 'v) list \<Rightarrow> nat" where
  "map_upper_bound lt k m = length (takeWhile (\<lambda>e. \<not> lt k (fst e)) m)"

definition map_lower_bound :: "('k \<Rightarrow> 'k \<Rightarrow> bool) \<Rightarrow> 'k \<Rightarrow> ('k \<times> 'v) list \<Rightarrow> nat" where
  "map_lower_bound lt k m = length (takeWhile (\<lambda>e. lt (fst e) k) m)"

definition map_find :: "('k \<Rightarrow> 'k \<Rightarrow> bool) \<Rightarrow> 'k \<Rightarrow> ('k \<times> 'v) list \<Rightarrow> nat option" where
  "map_find lt k m =
     (let i = map_lower_bound lt k m
      in if i < length m \<and> \<not> lt k (fst (m ! i)) then Some i else None)"

definition map_emplace :: "('k \<Rightarrow> 'k \<Rightarrow> bool) \<Rightarrow> 'k \<Rightarrow> 'v \<Rightarrow> ('k \<times> 'v) list \<Rightarrow> ('k \<times> 'v) list" where
  "map_emplace lt k v m =
     (case map_find lt k m of
        Some _ \<Rightarrow> m
      | None \<Rightarrow> (let i = map_lower_bound lt k m in take i m @ (k, v) # drop i m))"

definition map_inv :: "('k \<Rightarrow> 'k \<Rightarrow> bool) \<Rightarrow> ('k \<Rightarrow> bool) \<Rightarrow> ('k \<times> 'v) list \<Rightarrow> bool" where
  "map_inv lt ok m \<longleftrightarrow> sorted_wrt lt (map fst m) \<and> list_all ok (map fst m)"

section \<open>Laws of a map over a strict total order\<close>

locale key_order =
  fixes lt :: "'k \<Rightarrow> 'k \<Rightarrow> bool" and ok :: "'k \<Rightarrow> bool"
  assumes lt_irrefl: "\<not> lt k k"
    and lt_trans: "lt a b \<Longrightarrow> lt b c \<Longrightarrow> lt a c"
    and lt_total: "ok a \<Longrightarrow> ok b \<Longrightarrow> \<not> lt a b \<Longrightarrow> \<not> lt b a \<Longrightarrow> a = b"
begin

lemma lt_asym: "lt a b \<Longrightarrow> \<not> lt b a"
  using lt_trans lt_irrefl by blast

lemma sorted_nth:
  "map_inv lt ok m \<Longrightarrow> i < j \<Longrightarrow> j < length m \<Longrightarrow> lt (fst (m ! i)) (fst (m ! j))"
  by (auto simp: map_inv_def sorted_wrt_iff_nth_less)

lemma key_ok: "map_inv lt ok m \<Longrightarrow> e \<in> set m \<Longrightarrow> ok (fst e)"
  by (auto simp: map_inv_def list_all_iff)

lemma upper_bound_le: "map_upper_bound lt k m \<le> length m"
  by (simp add: map_upper_bound_def length_takeWhile_le)

lemma below_upper_bound: "i < map_upper_bound lt k m \<Longrightarrow> \<not> lt k (fst (m ! i))"
  unfolding map_upper_bound_def by (drule nth_takeWhile_holds) simp

lemma above_upper_bound:
  assumes "map_inv lt ok m" "map_upper_bound lt k m \<le> i" "i < length m"
  shows "lt k (fst (m ! i))"
proof -
  let ?n = "map_upper_bound lt k m"
  have "?n < length m" using assms by simp
  then have n: "lt k (fst (m ! ?n))"
    unfolding map_upper_bound_def using nth_length_takeWhile [of "\<lambda>e. \<not> lt k (fst e)" m] by simp
  show ?thesis
  proof (cases "i = ?n")
    case False
    with assms have "lt (fst (m ! ?n)) (fst (m ! i))" by (intro sorted_nth) auto
    with n show ?thesis by (rule lt_trans)
  qed (use n in simp)
qed

lemma below_lower_bound: "i < map_lower_bound lt k m \<Longrightarrow> lt (fst (m ! i)) k"
  unfolding map_lower_bound_def by (drule nth_takeWhile_holds) simp

lemma at_lower_bound: "map_lower_bound lt k m < length m \<Longrightarrow> \<not> lt (fst (m ! map_lower_bound lt k m)) k"
  unfolding map_lower_bound_def using nth_length_takeWhile by fastforce

lemma find_Some:
  assumes "map_inv lt ok m" "ok k" "map_find lt k m = Some i"
  shows "i < length m" "fst (m ! i) = k"
proof -
  from assms(3) have i: "i = map_lower_bound lt k m" "i < length m" "\<not> lt k (fst (m ! i))"
    by (auto simp: map_find_def Let_def split: if_splits)
  then have "\<not> lt (fst (m ! i)) k" using at_lower_bound [of k m] by simp
  with i show "i < length m" "fst (m ! i) = k"
    using assms lt_total [of "fst (m ! i)" k] key_ok [OF assms(1) nth_mem] by auto
qed

lemma find_None:
  assumes "map_inv lt ok m" "map_find lt k m = None"
  shows "k \<notin> fst ` set m"
proof
  assume "k \<in> fst ` set m"
  then obtain j where j: "j < length m" "fst (m ! j) = k" by (auto simp: in_set_conv_nth)
  let ?i = "map_lower_bound lt k m"
  have "\<not> j < ?i" using below_lower_bound [of j k m] j lt_irrefl by auto
  then have i: "?i < length m" "lt k (fst (m ! ?i))"
    using assms(2) j by (auto simp: map_find_def Let_def split: if_splits)
  then have "?i \<noteq> j" using j lt_irrefl by auto
  with \<open>\<not> j < ?i\<close> have "lt (fst (m ! ?i)) (fst (m ! j))"
    using sorted_nth [OF assms(1), of ?i j] j by simp
  with i j show False using lt_asym by auto
qed

lemma emplace_new:
  assumes "map_find lt k m = None"
  shows "set (map_emplace lt k v m) = insert (k, v) (set m)"
proof -
  let ?i = "map_lower_bound lt k m"
  have "set (take ?i m) \<union> set (drop ?i m) = set m"
    by (metis append_take_drop_id set_append)
  then show ?thesis using assms by (simp add: map_emplace_def Let_def)
qed

lemma emplace_inv:
  assumes "map_inv lt ok m" "ok k"
  shows "map_inv lt ok (map_emplace lt k v m)"
proof (cases "map_find lt k m")
  case (Some i)
  with assms show ?thesis by (simp add: map_emplace_def)
next
  case None
  let ?i = "map_lower_bound lt k m"
  have low: "lt (fst e) k" if "e \<in> set (take ?i m)" for e
    using that below_lower_bound [of _ k m] by (auto simp: in_set_conv_nth)
  have high: "lt k (fst e)" if "e \<in> set (drop ?i m)" for e
  proof -
    from that obtain j where "j < length m - ?i" "e = m ! (?i + j)"
      by (auto simp: in_set_conv_nth)
    then have j: "?i + j < length m" "e = m ! (?i + j)" by simp_all
    with None have "lt k (fst (m ! ?i))"
      by (auto simp: map_find_def Let_def split: if_splits)
    moreover have "j = 0 \<or> lt (fst (m ! ?i)) (fst e)"
      using sorted_nth [OF assms(1), of ?i "?i + j"] j by auto
    ultimately show ?thesis using j lt_trans by auto
  qed
  have sorted: "sorted_wrt lt (map fst (take ?i m @ drop ?i m))"
    using assms(1) by (simp add: map_inv_def)
  have oks: "list_all ok (map fst (take ?i m @ drop ?i m))"
    using assms(1) by (simp add: map_inv_def)
  have "sorted_wrt lt (map fst (take ?i m @ (k, v) # drop ?i m))"
    using sorted low high unfolding map_append sorted_wrt_append by auto
  moreover have "list_all ok (map fst (take ?i m @ (k, v) # drop ?i m))"
    using oks assms(2) by (simp del: append_take_drop_id)
  ultimately show ?thesis using None by (simp add: map_inv_def map_emplace_def Let_def)
qed

lemma update_inv:
  assumes "map_inv lt ok m" "i < length m"
  shows "map_inv lt ok (m[i := (fst (m ! i), v)])"
proof -
  have "map fst (m[i := (fst (m ! i), v)]) = map fst m"
    using assms(2) by (simp add: map_update list_update_same_conv)
  then show ?thesis using assms(1) by (simp add: map_inv_def)
qed

lemma distinct_keys: "map_inv lt ok m \<Longrightarrow> distinct (map fst m)"
  using sorted_nth lt_irrefl by (fastforce simp: distinct_conv_nth neq_iff)

end

section \<open>Keys that are sequences of segments\<close>

text \<open>
  When the keys are sequences of segments and the order is lexicographic, the entry just before the
  upper bound of a key extends every entry whose key is a prefix of it.
\<close>

locale segment_order = key_order +
  fixes segs :: "'a \<Rightarrow> 's list"
  assumes strict_prefix_less: "strict_prefix (segs a) (segs b) \<Longrightarrow> lt a b"
    and same_segs_not_less: "segs a = segs b \<Longrightarrow> \<not> lt b a"
    and between: "prefix (segs a) (segs c) \<Longrightarrow> \<not> lt b a \<Longrightarrow> \<not> lt c b \<Longrightarrow> prefix (segs a) (segs b)"
begin

lemma prefix_not_greater: "prefix (segs a) (segs b) \<Longrightarrow> \<not> lt b a"
  using strict_prefix_less same_segs_not_less lt_asym by (metis strict_prefix_def)

lemma prefix_entry_below:
  assumes "map_inv lt ok m" "j < length m" "prefix (segs (fst (m ! j))) (segs q)"
  shows "j < map_upper_bound lt q m"
proof (rule ccontr)
  assume "\<not> j < map_upper_bound lt q m"
  then have "lt q (fst (m ! j))" using assms by (intro above_upper_bound) auto
  with prefix_not_greater [OF assms(3)] show False by simp
qed

lemma prefix_entry_extended:
  assumes inv: "map_inv lt ok m" and j: "j < length m"
    and pre: "prefix (segs (fst (m ! j))) (segs q)" and i: "i = map_upper_bound lt q m"
  shows "prefix (segs (fst (m ! j))) (segs (fst (m ! (i - 1))))"
proof -
  have below: "j < i" using prefix_entry_below [OF inv j pre] i by simp
  have "\<not> lt (fst (m ! (i - 1))) (fst (m ! j))"
  proof (cases "j = i - 1")
    case False
    then have "lt (fst (m ! j)) (fst (m ! (i - 1)))"
      using below i upper_bound_le [of q m] by (intro sorted_nth [OF inv]) auto
    then show ?thesis by (rule lt_asym)
  qed (simp add: lt_irrefl)
  moreover have "\<not> lt q (fst (m ! (i - 1)))"
    using below i by (intro below_upper_bound) auto
  ultimately show ?thesis by (rule between [OF pre])
qed

lemma upper_bound_decreases:
  assumes "strict_prefix (segs c) (segs (fst (m ! i)))" "i < length m"
  shows "map_upper_bound lt c m \<le> i"
proof (rule ccontr)
  assume "\<not> map_upper_bound lt c m \<le> i"
  then have "\<not> lt c (fst (m ! i))" by (intro below_upper_bound) simp
  with strict_prefix_less [OF assms(1)] show False by simp
qed

end

section \<open>The path order satisfies the laws\<close>

text \<open>The lexicographic order on element sequences, by recursion.\<close>

fun seg_less :: "string list \<Rightarrow> string list \<Rightarrow> bool" where
  "seg_less [] ys = (ys \<noteq> [])"
| "seg_less (x # xs) [] = False"
| "seg_less (x # xs) (y # ys) = (if x = y then seg_less xs ys else elem_less x y)"

lemma seg_less_mismatch:
  "seg_less xs ys =
     (let n = mismatch_pos xs ys in
      if drop n xs = [] then drop n ys \<noteq> []
      else if drop n ys = [] then False
      else elem_less (hd (drop n xs)) (hd (drop n ys)))"
  by (induction xs ys rule: seg_less.induct) (auto simp: Let_def)

lemma ComparePathSegments_seg_less: "ComparePathSegments l r = seg_less (elems l) (elems r)"
  by (simp add: ComparePathSegments_def seg_less_mismatch Let_def)

lemma elem_less_irrefl: "\<not> elem_less a a"
  by (simp add: elem_less_def)

lemma elem_less_trans: "elem_less a b \<Longrightarrow> elem_less b c \<Longrightarrow> elem_less a c"
  by (auto simp: elem_less_def split: if_splits)

lemma elem_less_total: "a \<noteq> b \<Longrightarrow> elem_less a b \<or> elem_less b a"
  by (auto simp: elem_less_def)

lemma seg_less_irrefl: "\<not> seg_less xs xs"
  by (induction xs) auto

lemma seg_less_trans: "seg_less xs ys \<Longrightarrow> seg_less ys zs \<Longrightarrow> seg_less xs zs"
proof (induction xs ys arbitrary: zs rule: seg_less.induct)
  case (3 x xs y ys)
  then obtain z zs' where zs: "zs = z # zs'" by (cases zs) auto
  with 3 show ?case
    using elem_less_trans [of x y z] elem_less_trans [of x y x] elem_less_irrefl [of x]
    by (auto split: if_splits)
next
  case (1 ys)
  then show ?case by (cases ys; cases zs) auto
qed simp

lemma seg_less_total: "xs = ys \<or> seg_less xs ys \<or> seg_less ys xs"
proof (induction xs ys rule: seg_less.induct)
  case (1 ys)
  show ?case by (cases ys) auto
qed (auto dest: elem_less_total)

lemma seg_less_strict_prefix: "strict_prefix xs ys \<Longrightarrow> seg_less xs ys"
  by (induction xs ys rule: seg_less.induct) auto

lemma seg_less_between:
  "prefix xs zs \<Longrightarrow> \<not> seg_less ys xs \<Longrightarrow> \<not> seg_less zs ys \<Longrightarrow> prefix xs ys"
proof (induction xs ys arbitrary: zs rule: seg_less.induct)
  case (2 x xs)
  then show ?case by simp
next
  case (3 x xs y ys)
  then obtain zs' where zs: "zs = x # zs'" "prefix xs zs'" by (cases zs) auto
  show ?case
  proof (cases "x = y")
    case True
    with 3 zs show ?thesis by auto
  next
    case False
    with "3.prems" zs have "\<not> elem_less y x" "\<not> elem_less x y" by auto
    with False elem_less_total show ?thesis by blast
  qed
qed simp

lemma elems_inj: "path_wf p \<Longrightarrow> path_wf q \<Longrightarrow> elems p = elems q \<Longrightarrow> p = q"
  by (cases p; cases q) (auto simp: elems_def path_wf_def split: if_splits)

interpretation path_map: segment_order ComparePathSegments path_wf elems
proof unfold_locales
  show "\<not> ComparePathSegments k k" for k
    by (simp add: ComparePathSegments_seg_less seg_less_irrefl)
  show "ComparePathSegments a c" if "ComparePathSegments a b" "ComparePathSegments b c" for a b c
    using that seg_less_trans by (auto simp: ComparePathSegments_seg_less)
  show "a = b" if "path_wf a" "path_wf b" "\<not> ComparePathSegments a b" "\<not> ComparePathSegments b a"
    for a b
    using that seg_less_total [of "elems a" "elems b"]
    by (auto simp: ComparePathSegments_seg_less intro: elems_inj)
  show "ComparePathSegments a b" if "strict_prefix (elems a) (elems b)" for a b
    using that by (simp add: ComparePathSegments_seg_less seg_less_strict_prefix)
  show "\<not> ComparePathSegments b a" if "elems a = elems b" for a b
    using that by (simp add: ComparePathSegments_seg_less seg_less_irrefl)
  show "prefix (elems a) (elems b)"
    if "prefix (elems a) (elems c)" "\<not> ComparePathSegments b a" "\<not> ComparePathSegments c b" for a b c
    using that seg_less_between by (auto simp: ComparePathSegments_seg_less)
qed

end
