(* ===== verification/AllowedPaths.thy ===== *)
theory AllowedPaths
  imports OrderedMap
begin

text \<open>
  The table of guest paths the sandboxed program may open (\<open>Configuration::allowed_paths\<close>): how the
  configuration fills it (\<open>ensure_path\<close>, config.cpp) and how a virtual machine consults it
  (\<open>lookup_allowed_path\<close> and the file callbacks, vm.cpp).
\<close>

section \<open>Data\<close>

record VirtualPath =
  real_path :: fs_path
  virtual_path :: fs_path
  readable :: bool
  writable :: bool
  symlink :: bool

type_synonym allowed_paths = "(fs_path \<times> VirtualPath) list"

section \<open>Filling the table\<close>

text \<open>
  \<open>ensure_path\<close> with \<open>cur\<close> standing for the value of \<open>std::filesystem::current_path()\<close>.  An existing
  entry keeps the permissions it has and takes the new real path.
\<close>

definition make_normal :: "fs_path \<Rightarrow> fs_path \<Rightarrow> fs_path" where
  "make_normal base p = normal_dir (if is_relative p then path_append base p else p)"

definition ensure_path ::
  "fs_path \<Rightarrow> fs_path \<Rightarrow> fs_path \<Rightarrow> allowed_paths \<Rightarrow> bool \<Rightarrow> bool \<Rightarrow> bool \<Rightarrow> allowed_paths" where
  "ensure_path cur src dst table r w s =
     (let src = make_normal cur src; dst = make_normal cur dst
      in case map_find ComparePathSegments src table of
           None \<Rightarrow>
             map_emplace ComparePathSegments src
               \<lparr>real_path = dst, virtual_path = src, readable = r, writable = w, symlink = s\<rparr> table
         | Some it \<Rightarrow>
             (let vpath = (snd (table ! it))\<lparr>real_path := dst\<rparr>;
                  vpath = (if r then vpath\<lparr>readable := True\<rparr> else vpath);
                  vpath = (if w then vpath\<lparr>writable := True\<rparr> else vpath);
                  vpath = (if s then vpath\<lparr>symlink := True\<rparr> else vpath)
              in table[it := (fst (table ! it), vpath)]))"

section \<open>Consulting the table\<close>

text \<open>
  The loop of \<open>lookup_allowed_path\<close>.  \<open>it\<close> is the iterator before its decrement and \<open>failsafe\<close> the
  counter before its decrement; the loop leaves with no result when the counter reaches zero, so \<open>None\<close>
  is a refusal for either reason, as the \<open>false\<close> of the code.  A path iterator is the number of elements before it.
\<close>

fun lookup_loop ::
  "allowed_paths \<Rightarrow> (VirtualPath \<Rightarrow> bool) \<Rightarrow> fs_path \<Rightarrow> nat \<Rightarrow> nat \<Rightarrow> (VirtualPath \<times> fs_path) option" where
  "lookup_loop table extract path 0 it = None"
| "lookup_loop table extract path (Suc failsafe) it =
     (if it = 0 then None
      else
        let key = fst (table ! (it - 1)); vpath = snd (table ! (it - 1));
            path_it = mismatch_pos (elems key) (elems path);
            key_done = (drop path_it (elems key) = [])
        in if key_done \<and> extract vpath then
             Some (vpath, accumulate_path (real_path vpath) (drop path_it (elems path)))
           else
             let path_it = (if key_done then path_it - 1 else path_it);
                 it = map_upper_bound ComparePathSegments
                        (accumulate_path (path_of_string ''/'') (take path_it (elems path))) table
             in if failsafe = 0 then None else lookup_loop table extract path failsafe it)"

definition lookup_entry ::
  "allowed_paths \<Rightarrow> (VirtualPath \<Rightarrow> bool) \<Rightarrow> fs_path \<Rightarrow> (VirtualPath \<times> fs_path) option" where
  "lookup_entry table extract path =
     lookup_loop table extract path (length table) (map_upper_bound ComparePathSegments path table)"

text \<open>
  The function itself: the in-out argument is the second component of the result, unchanged when
  the path is refused.
\<close>

definition lookup_allowed_path ::
  "string \<Rightarrow> string \<Rightarrow> allowed_paths \<Rightarrow> (VirtualPath \<Rightarrow> bool) \<Rightarrow> bool \<times> string" where
  "lookup_allowed_path pathinout cwd table extract =
     (case lookup_entry table extract (make_normal (path_of_string cwd) (path_of_string pathinout)) of
        Some (vpath, p) \<Rightarrow> (True, string_of_path p)
      | None \<Rightarrow> (False, pathinout))"

section \<open>The file callbacks of a virtual machine\<close>

definition open_writable :: "allowed_paths \<Rightarrow> string \<Rightarrow> string \<Rightarrow> bool \<times> string" where
  "open_writable table cwd path = lookup_allowed_path path cwd table writable"

definition open_readable :: "allowed_paths \<Rightarrow> string \<Rightarrow> string \<Rightarrow> bool \<times> string" where
  "open_readable table cwd path = lookup_allowed_path path cwd table readable"

text \<open>
  The predicate given to the lookup accepts the first entry it is asked about and records its
  symlink flag, which the callback returns.
\<close>

definition resolve_symlink :: "allowed_paths \<Rightarrow> string \<Rightarrow> string \<Rightarrow> bool \<times> string" where
  "resolve_symlink table cwd path =
     (case lookup_entry table (\<lambda>_. True) (make_normal (path_of_string cwd) (path_of_string path)) of
        Some (vpath, p) \<Rightarrow> (symlink vpath, string_of_path p)
      | None \<Rightarrow> (False, path))"

section \<open>The invariant of the table\<close>

text \<open>
  Entries are in key order, keys and real paths are absolute and normal, and an entry records its
  own key.
\<close>

definition entry_ok :: "fs_path \<times> VirtualPath \<Rightarrow> bool" where
  "entry_ok e \<longleftrightarrow> normal_abs (fst e) \<and> normal_abs (real_path (snd e)) \<and> virtual_path (snd e) = fst e"

definition table_inv :: "allowed_paths \<Rightarrow> bool" where
  "table_inv table \<longleftrightarrow> map_inv ComparePathSegments path_wf table \<and> list_all entry_ok table"

lemma table_inv_Nil: "table_inv []"
  by (simp add: table_inv_def map_inv_def)

lemma table_invD:
  assumes "table_inv table"
  shows "map_inv ComparePathSegments path_wf table"
    and "e \<in> set table \<Longrightarrow> entry_ok e"
  using assms by (auto simp: table_inv_def list_all_iff)

lemma make_normal_normal:
  assumes "has_root base" "path_wf base" "path_wf p"
  shows "normal_abs (make_normal base p)"
  using assms by (auto simp: make_normal_def is_relative_def has_root_append path_wf_append
      intro: normal_dir_normal)

lemma make_normal_string: "normal_abs cur \<Longrightarrow> normal_abs (make_normal cur (path_of_string p))"
  by (intro make_normal_normal path_wf_path_of_string normal_abs_wf) (simp_all add: normal_abs_def)

lemma ensure_path_cases:
  assumes inv: "table_inv table" and src: "normal_abs (make_normal cur src)"
  obtains (new) "make_normal cur src \<notin> fst ` set table"
      "map_find ComparePathSegments (make_normal cur src) table = None"
      "set (ensure_path cur src dst table r w s) =
         insert (make_normal cur src,
           \<lparr>real_path = make_normal cur dst, virtual_path = make_normal cur src,
            readable = r, writable = w, symlink = s\<rparr>) (set table)"
    | (old) it vpath where "it < length table" "table ! it = (make_normal cur src, vpath)"
      "ensure_path cur src dst table r w s = table[it := (make_normal cur src,
         vpath\<lparr>real_path := make_normal cur dst, readable := readable vpath \<or> r,
               writable := writable vpath \<or> w, symlink := symlink vpath \<or> s\<rparr>)]"
proof (cases "map_find ComparePathSegments (make_normal cur src) table")
  case None
  show ?thesis
    using path_map.find_None [OF table_invD(1) [OF inv] None] None
      path_map.emplace_new [OF None]
    by (intro new) (simp_all add: ensure_path_def Let_def)
next
  case (Some it)
  have it: "it < length table" "fst (table ! it) = make_normal cur src"
    using path_map.find_Some [OF table_invD(1) [OF inv] normal_abs_wf [OF src] Some] by auto
  show ?thesis
    using it Some
    by (intro old [of it "snd (table ! it)"])
      (auto simp: ensure_path_def Let_def prod_eq_iff intro!: arg_cong [where f = "list_update table it"])
qed

lemma entry_ok_update:
  assumes "entry_ok (k, vpath)" "normal_abs dst"
  shows "entry_ok (k, vpath\<lparr>real_path := dst, readable := r, writable := w, symlink := s\<rparr>)"
  using assms by (simp add: entry_ok_def)

lemma ensure_path_inv:
  assumes inv: "table_inv table" and src: "normal_abs (make_normal cur src)"
    and dst: "normal_abs (make_normal cur dst)"
  shows "table_inv (ensure_path cur src dst table r w s)"
proof (rule ensure_path_cases [OF inv src, of dst r w s], goal_cases new old)
  case new
  have "map_inv ComparePathSegments path_wf (ensure_path cur src dst table r w s)"
    using new(2) path_map.emplace_inv [OF table_invD(1) [OF inv] normal_abs_wf [OF src]]
    by (simp add: ensure_path_def Let_def)
  moreover have "list_all entry_ok (ensure_path cur src dst table r w s)"
    using new(3) table_invD(2) [OF inv] src dst by (auto simp: list_all_iff entry_ok_def)
  ultimately show ?thesis by (simp add: table_inv_def)
next
  case (old it vpath)
  have "map_inv ComparePathSegments path_wf (ensure_path cur src dst table r w s)"
    using old path_map.update_inv [OF table_invD(1) [OF inv] old(1)] by simp
  moreover have "list_all entry_ok (ensure_path cur src dst table r w s)"
  proof -
    have "entry_ok (make_normal cur src, vpath)"
      using table_invD(2) [OF inv nth_mem [OF old(1)]] old(2) by simp
    then have "entry_ok (make_normal cur src, vpath\<lparr>real_path := make_normal cur dst,
        readable := readable vpath \<or> r, writable := writable vpath \<or> w, symlink := symlink vpath \<or> s\<rparr>)"
      by (rule entry_ok_update) (rule dst)
    then show ?thesis
      using table_invD(2) [OF inv] old(3) set_update_subset_insert [of table it]
      by (fastforce simp: list_all_iff)
  qed
  ultimately show ?thesis by (simp add: table_inv_def)
qed

section \<open>Reference meaning of a lookup\<close>

text \<open>
  The entry that decides about a path is, among those whose key is the path or one of its ancestors
  and whose permissions the caller accepts, the last one in key order.
\<close>

definition candidate :: "(VirtualPath \<Rightarrow> bool) \<Rightarrow> fs_path \<Rightarrow> fs_path \<times> VirtualPath \<Rightarrow> bool" where
  "candidate extract path e \<longleftrightarrow> prefix (elems (fst e)) (elems path) \<and> extract (snd e)"

definition deciding_entry ::
  "allowed_paths \<Rightarrow> (VirtualPath \<Rightarrow> bool) \<Rightarrow> fs_path \<Rightarrow> (fs_path \<times> VirtualPath) option" where
  "deciding_entry table extract path =
     (case filter (candidate extract path) table of [] \<Rightarrow> None | es \<Rightarrow> Some (last es))"

text \<open>The host path an entry gives to a guest path below its key.\<close>

definition translated :: "fs_path \<Rightarrow> fs_path \<times> VirtualPath \<Rightarrow> fs_path" where
  "translated path e =
     Path True (names (real_path (snd e)) @ drop (length (names (fst e))) (names path))"

lemma deciding_entry_last:
  "deciding_entry table extract path =
     (if filter (candidate extract path) table = [] then None
      else Some (last (filter (candidate extract path) table)))"
  by (simp add: deciding_entry_def split: list.splits)

lemma deciding_entry_None_iff:
  "deciding_entry table extract path = None \<longleftrightarrow> (\<forall>e \<in> set table. \<not> candidate extract path e)"
  by (simp add: deciding_entry_last filter_empty_conv)

lemma deciding_entry_nth:
  assumes "i < length table" "candidate extract path (table ! i)"
    and "\<And>j. i < j \<Longrightarrow> j < length table \<Longrightarrow> \<not> candidate extract path (table ! j)"
  shows "deciding_entry table extract path = Some (table ! i)"
  using last_filter_nth [where P = "candidate extract path" and xs = table and i = i] assms
  by (simp add: deciding_entry_last)

lemma deciding_entry_Some:
  assumes "deciding_entry table extract path = Some e"
  shows "\<exists>i < length table. e = table ! i \<and> candidate extract path e \<and>
    (\<forall>j. i < j \<longrightarrow> j < length table \<longrightarrow> \<not> candidate extract path (table ! j))"
  using assms last_filter_position [of "candidate extract path" table]
  by (auto simp: deciding_entry_last split: if_splits)

text \<open>The deciding entry is the most specific one: no acceptable ancestor of the path is longer.\<close>

lemma deciding_entry_longest:
  assumes inv: "table_inv table" and d: "deciding_entry table extract path = Some e"
    and e': "e' \<in> set table" "candidate extract path e'"
  shows "prefix (elems (fst e')) (elems (fst e))"
proof -
  obtain i where i: "i < length table" "e = table ! i" "candidate extract path e"
    "\<And>j. i < j \<Longrightarrow> j < length table \<Longrightarrow> \<not> candidate extract path (table ! j)"
    using deciding_entry_Some [OF d] by blast
  obtain j where j: "j < length table" "e' = table ! j" using e' by (auto simp: in_set_conv_nth)
  have "j \<le> i" using i(4) [of j] j e'(2) by force
  then have "\<not> ComparePathSegments (fst e) (fst e')"
    using path_map.sorted_nth [OF table_invD(1) [OF inv], of j i] i j
      path_map.lt_asym path_map.lt_irrefl by (cases "j = i") auto
  then have "\<not> strict_prefix (elems (fst e)) (elems (fst e'))"
    using path_map.strict_prefix_less by blast
  then show ?thesis
    using i(3) e'(2) prefix_same_cases by (fastforce simp: candidate_def strict_prefix_def)
qed

section \<open>Correctness of the loop\<close>

lemma entry_elems: "entry_ok e \<Longrightarrow> elems (fst e) = ''/'' # names (fst e)"
  by (simp add: entry_ok_def elems_normal)

lemma translated_accumulate:
  assumes "entry_ok e" "normal_abs path" "prefix (elems (fst e)) (elems path)"
  shows "accumulate_path (real_path (snd e)) (drop (mismatch_pos (elems (fst e)) (elems path)) (elems path)) =
    translated path e"
proof -
  have n: "mismatch_pos (elems (fst e)) (elems path) = Suc (length (names (fst e)))"
    using assms(3) by (simp add: mismatch_pos_full_iff [symmetric] entry_elems [OF assms(1)])
  have clean: "list_all clean_name (names path)" "list_all clean_name (names (real_path (snd e)))"
    using assms by (simp_all add: normal_abs_def entry_ok_def)
  then have "list_all clean_name (drop (length (names (fst e))) (names path))"
    by (auto simp: list_all_iff dest: in_set_dropD)
  moreover have "names (real_path (snd e)) = [] \<or> last (names (real_path (snd e))) \<noteq> []"
    using clean(2) by (cases "names (real_path (snd e))" rule: rev_cases) (auto simp: clean_name_def)
  ultimately show ?thesis
    using assms(1,2) n
    by (simp add: accumulate_clean translated_def elems_normal entry_ok_def normal_abs_def)
qed

text \<open>
  The next bound of the search: the common prefix of the path and the entry just looked at, one
  element shorter when the entry itself was refused.
\<close>

lemma accumulate_ancestor:
  assumes "normal_abs path"
  shows "accumulate_path (path_of_string ''/'') (take n (elems path)) = Path True (take (n - 1) (names path))"
proof -
  have "list_all clean_name (take (n - 1) (names path))"
    using assms by (auto simp: normal_abs_def list_all_iff dest: in_set_takeD)
  then have "accumulate_path (Path True []) (''/'' # take (n - 1) (names path)) =
      Path True (take (n - 1) (names path))"
    by (rule accumulate_from_root(1))
  moreover have "accumulate_path (Path True []) [] = Path True []"
    by (simp add: accumulate_path_def)
  ultimately show ?thesis
    using assms by (cases n) (simp_all add: path_of_string_root elems_normal)
qed

definition next_bound :: "fs_path \<Rightarrow> fs_path \<Rightarrow> fs_path" where
  "next_bound key path = Path True (take (cut_back (elems key) (elems path) - 1) (names path))"

lemma elems_next_bound:
  assumes "normal_abs path" "0 < cut_back (elems key) (elems path)"
  shows "elems (next_bound key path) = take (cut_back (elems key) (elems path)) (elems path)"
  using assms by (simp add: next_bound_def elems_def normal_abs_def take_Cons')

lemma next_bound_code:
  assumes "normal_abs path"
  shows "accumulate_path (path_of_string ''/'')
      (take (if drop (mismatch_pos (elems key) (elems path)) (elems key) = []
             then mismatch_pos (elems key) (elems path) - 1
             else mismatch_pos (elems key) (elems path)) (elems path)) = next_bound key path"
  unfolding accumulate_ancestor [OF assms] drop_mismatch_Nil_iff next_bound_def cut_back_def
  by (auto simp: mismatch_pos_full_iff [symmetric])

lemma lookup_loop_Suc:
  assumes "table_inv table" "normal_abs path" "0 < it" "it \<le> length table"
  shows "lookup_loop table extract path (Suc failsafe) it =
    (let e = table ! (it - 1) in
     if candidate extract path e then Some (snd e, translated path e)
     else if failsafe = 0 then None
     else lookup_loop table extract path failsafe
       (map_upper_bound ComparePathSegments (next_bound (fst e) path) table))"
proof -
  let ?e = "table ! (it - 1)"
  let ?n = "mismatch_pos (elems (fst ?e)) (elems path)"
  have "?e \<in> set table" using assms by simp
  then have ok: "entry_ok ?e" by (rule table_invD(2) [OF assms(1)])
  have "lookup_loop table extract path (Suc failsafe) it =
    (if candidate extract path ?e then
       Some (snd ?e, accumulate_path (real_path (snd ?e)) (drop ?n (elems path)))
     else if failsafe = 0 then None
     else lookup_loop table extract path failsafe
       (map_upper_bound ComparePathSegments (next_bound (fst ?e) path) table))"
    using assms
    by (simp add: Let_def candidate_def next_bound_code drop_mismatch_Nil_iff [symmetric]
        del: drop_eq_Nil)
  then show ?thesis
    using translated_accumulate [OF ok assms(2)] by (simp add: candidate_def Let_def)
qed

declare lookup_loop.simps(2) [simp del]

lemma lookup_loop_none_left: "lookup_loop table extract path failsafe 0 = None"
  by (cases failsafe) (simp_all add: lookup_loop.simps(2))

lemma lookup_loop_sound:
  assumes inv: "table_inv table" and path: "normal_abs path"
  shows "lookup_loop table extract path failsafe it = Some (vpath, p) \<Longrightarrow> it \<le> length table \<Longrightarrow>
    \<exists>e \<in> set table. candidate extract path e"
proof (induction failsafe arbitrary: it)
  case (Suc failsafe)
  let ?e = "table ! (it - 1)"
  from Suc.prems have it: "0 < it" by (cases it) (auto simp: lookup_loop_none_left)
  with Suc.prems have "?e \<in> set table" by simp
  with Suc it path_map.upper_bound_le show ?case
    by (cases "candidate extract path ?e")
      (auto simp: lookup_loop_Suc [OF inv path] Let_def split: if_splits)
qed simp

text \<open>Every candidate below the entry just refused is an ancestor of, or at, the next bound.\<close>

lemma candidate_below_next_bound:
  assumes inv: "table_inv table" and path: "normal_abs path"
    and i: "i < length table" "\<not> candidate extract path (table ! i)"
    and j: "j < length table" "candidate extract path (table ! j)"
    and pre: "prefix (elems (fst (table ! j))) (elems (fst (table ! i)))"
  shows "prefix (elems (fst (table ! j))) (elems (next_bound (fst (table ! i)) path))"
    and "strict_prefix (elems (next_bound (fst (table ! i)) path)) (elems (fst (table ! i)))"
proof -
  let ?ei = "elems (fst (table ! i))" and ?ej = "elems (fst (table ! j))"
  have ok: "entry_ok (table ! i)" "entry_ok (table ! j)"
    using table_invD(2) [OF inv] i(1) j(1) by simp_all
  have jpath: "prefix ?ej (elems path)" using j(2) by (simp add: candidate_def)
  have "\<not> prefix ?ei (elems path)" if "?ej = ?ei"
  proof -
    have "fst (table ! j) = fst (table ! i)"
      using that ok by (intro elems_inj normal_abs_wf) (simp_all add: entry_ok_def)
    then have "j = i"
      using path_map.distinct_keys [OF table_invD(1) [OF inv]] i(1) j(1)
      by (simp add: distinct_conv_nth) metis
    with i j show ?thesis by simp
  qed
  moreover have "?ej \<noteq> []" by (simp add: entry_elems [OF ok(2)])
  ultimately have cut: "0 < cut_back ?ei (elems path)"
      "prefix ?ej (take (cut_back ?ei (elems path)) (elems path))"
      "strict_prefix (take (cut_back ?ei (elems path)) (elems path)) ?ei"
    using cut_back_keeps [OF pre jpath] by auto
  then show "prefix ?ej (elems (next_bound (fst (table ! i)) path))"
    and "strict_prefix (elems (next_bound (fst (table ! i)) path)) ?ei"
    by (simp_all add: elems_next_bound [OF path])
qed

text \<open>
  The search invariant: the iterator is the upper bound of an ancestor \<open>q\<close> of the path, all
  candidates are ancestors of \<open>q\<close>, and the counter is at least the iterator.  The iterator gets
  smaller in every round in which a candidate is left, so the counter never cuts
  short a search that would grant.
\<close>

lemma lookup_loop_complete:
  assumes inv: "table_inv table" and path: "normal_abs path"
  shows "it \<le> failsafe \<Longrightarrow> it = map_upper_bound ComparePathSegments q table \<Longrightarrow>
    (\<And>j. j < length table \<Longrightarrow> candidate extract path (table ! j) \<Longrightarrow>
       prefix (elems (fst (table ! j))) (elems q)) \<Longrightarrow>
    lookup_loop table extract path failsafe it =
      map_option (\<lambda>e. (snd e, translated path e)) (deciding_entry table extract path)"
proof (induction failsafe arbitrary: it q)
  case 0
  have "\<not> candidate extract path e" if "e \<in> set table" for e
    using that 0 path_map.prefix_entry_below [OF table_invD(1) [OF inv]]
    by (metis in_set_conv_nth le_zero_eq not_less_zero)
  then have "deciding_entry table extract path = None" by (simp add: deciding_entry_None_iff)
  then show ?case by simp
next
  case (Suc failsafe)
  note below = path_map.prefix_entry_below [OF table_invD(1) [OF inv]]
  note extended = path_map.prefix_entry_extended [OF table_invD(1) [OF inv]]
  have it_le: "it \<le> length table" using Suc.prems(2) path_map.upper_bound_le by simp
  let ?i = "it - 1"
  show ?case
  proof (cases "\<exists>e \<in> set table. candidate extract path e")
    case False
    then have "lookup_loop table extract path (Suc failsafe) it = None"
      using lookup_loop_sound [OF inv path _ it_le, of _ "Suc failsafe"]
      by (cases "lookup_loop table extract path (Suc failsafe) it") fastforce+
    moreover have "deciding_entry table extract path = None"
      using False by (simp add: deciding_entry_None_iff)
    ultimately show ?thesis by simp
  next
    case True
    then obtain j where j: "j < length table" "candidate extract path (table ! j)"
      by (auto simp: in_set_conv_nth)
    have cand_below: "k < it" if "k < length table" "candidate extract path (table ! k)" for k
      using below [OF that(1) Suc.prems(3) [OF that]] Suc.prems(2) by simp
    with j have it: "0 < it" "?i < length table" using it_le by force+
    note step = lookup_loop_Suc [OF inv path it(1) it_le, of _ failsafe]
    show ?thesis
    proof (cases "candidate extract path (table ! ?i)")
      case True
      then have "deciding_entry table extract path = Some (table ! ?i)"
        using it cand_below by (intro deciding_entry_nth) force+
      with True show ?thesis by (simp add: step Let_def)
    next
      case False
      let ?q = "next_bound (fst (table ! ?i)) path"
      have pre: "prefix (elems (fst (table ! k))) (elems ?q)"
        if "k < length table" "candidate extract path (table ! k)" for k
        using candidate_below_next_bound(1) [OF inv path it(2) False that]
          extended [OF that(1) Suc.prems(3) [OF that] Suc.prems(2)] .
      have "strict_prefix (elems ?q) (elems (fst (table ! ?i)))"
        using candidate_below_next_bound(2) [OF inv path it(2) False j]
          extended [OF j(1) Suc.prems(3) [OF j] Suc.prems(2)] .
      then have le: "map_upper_bound ComparePathSegments ?q table \<le> ?i"
        using it(2) by (rule path_map.upper_bound_decreases)
      have "j < ?i" using below [OF j(1) pre [OF j]] le by simp
      then have "failsafe \<noteq> 0" using Suc.prems(1) by simp
      moreover have "lookup_loop table extract path failsafe (map_upper_bound ComparePathSegments ?q table) =
          map_option (\<lambda>e. (snd e, translated path e)) (deciding_entry table extract path)"
        using le Suc.prems(1) pre by (intro Suc.IH [of _ ?q]) simp_all
      ultimately show ?thesis using False by (simp add: step Let_def)
    qed
  qed
qed

lemma lookup_entry_eq:
  assumes "table_inv table" "normal_abs path"
  shows "lookup_entry table extract path =
    map_option (\<lambda>e. (snd e, translated path e)) (deciding_entry table extract path)"
  unfolding lookup_entry_def
  using lookup_loop_complete [OF assms path_map.upper_bound_le refl] by (simp add: candidate_def)

section \<open>The search without its failsafe\<close>

text \<open>
  The same loop without the counter: \<open>None\<close> is a search that never ends, \<open>Some None\<close> one that ends with
  no result.
\<close>

partial_function (option) lookup_unbounded ::
  "allowed_paths \<Rightarrow> (VirtualPath \<Rightarrow> bool) \<Rightarrow> fs_path \<Rightarrow> nat \<Rightarrow> (VirtualPath \<times> fs_path) option option" where
  "lookup_unbounded table extract path it =
     (if it = 0 then Some None
      else
        let key = fst (table ! (it - 1)); vpath = snd (table ! (it - 1));
            path_it = mismatch_pos (elems key) (elems path);
            key_done = (drop path_it (elems key) = [])
        in if key_done \<and> extract vpath then
             Some (Some (vpath, accumulate_path (real_path vpath) (drop path_it (elems path))))
           else
             let path_it = (if key_done then path_it - 1 else path_it);
                 it = map_upper_bound ComparePathSegments
                        (accumulate_path (path_of_string ''/'') (take path_it (elems path))) table
             in lookup_unbounded table extract path it)"

lemma lookup_unbounded_0 [simp]: "lookup_unbounded table extract path 0 = Some None"
  by (subst lookup_unbounded.simps) simp

text \<open>A grant of the bounded loop is the grant of the unbounded one.\<close>

lemma lookup_loop_unbounded:
  "lookup_loop table extract path failsafe it = Some r \<Longrightarrow> lookup_unbounded table extract path it = Some (Some r)"
proof (induction failsafe arbitrary: it)
  case (Suc failsafe)
  then show ?case
    by (subst lookup_unbounded.simps) (auto simp: lookup_loop.simps(2) Let_def split: if_splits)
qed simp

lemma refused_code:
  assumes "\<not> candidate extract path e"
  shows "\<not> (drop (mismatch_pos (elems (fst e)) (elems path)) (elems (fst e)) = [] \<and> extract (snd e))"
  using assms by (simp add: candidate_def drop_mismatch_Nil_iff del: drop_eq_Nil)

lemma lookup_unbounded_refused:
  assumes "table_inv table" "normal_abs path" "0 < it" "it \<le> length table"
    and "\<not> candidate extract path (table ! (it - 1))"
  shows "lookup_unbounded table extract path it = lookup_unbounded table extract path
    (map_upper_bound ComparePathSegments (next_bound (fst (table ! (it - 1))) path) table)"
  using assms(3)
  by (subst lookup_unbounded.simps)
    (simp only: Let_def if_not_P [OF refused_code [OF assms(5)]] next_bound_code [OF assms(2)]
      if_not_P [OF less_not_refl2])

text \<open>The search goes down the table as long as the entry it refused is not the root.\<close>

lemma next_bound_decreases:
  assumes inv: "table_inv table" and path: "normal_abs path" and i: "i < length table"
    and key: "fst (table ! i) \<noteq> Path True []"
  shows "map_upper_bound ComparePathSegments (next_bound (fst (table ! i)) path) table \<le> i"
proof -
  let ?e = "table ! i"
  have ok: "entry_ok ?e" by (rule table_invD(2) [OF inv nth_mem [OF i]])
  have "prefix [''/''] (elems (fst ?e))" "prefix [''/''] (elems path)"
    using entry_elems [OF ok] elems_normal [OF path] by simp_all
  moreover have "names (fst ?e) \<noteq> []"
    using key ok by (cases "fst ?e") (auto simp: entry_ok_def normal_abs_def)
  ultimately have "strict_prefix (elems (next_bound (fst ?e) path)) (elems (fst ?e))"
    using cut_back_keeps [of "[''/'']" "elems (fst ?e)" "elems path"] entry_elems [OF ok]
    by (simp add: elems_next_bound [OF path])
  then show ?thesis using i by (rule path_map.upper_bound_decreases)
qed

lemma lookup_unbounded_ends:
  assumes inv: "table_inv table" and path: "normal_abs path"
    and none: "\<And>e. e \<in> set table \<Longrightarrow> \<not> candidate extract path e"
    and root: "Path True [] \<notin> fst ` set table"
  shows "it \<le> length table \<Longrightarrow> lookup_unbounded table extract path it = Some None"
proof (induction it rule: less_induct)
  case (less it)
  show ?case
  proof (cases "it = 0")
    case False
    with less.prems have it: "0 < it" "it - 1 < length table" by simp_all
    have key: "fst (table ! (it - 1)) \<noteq> Path True []" using root it(2) nth_mem by force
    have "map_upper_bound ComparePathSegments (next_bound (fst (table ! (it - 1))) path) table < it"
      using next_bound_decreases [OF inv path it(2) key] it(1) by simp
    then have "lookup_unbounded table extract path (map_upper_bound ComparePathSegments
        (next_bound (fst (table ! (it - 1))) path) table) = Some None"
      using path_map.upper_bound_le by (rule less.IH)
    with lookup_unbounded_refused [OF inv path it(1) less.prems none [OF nth_mem [OF it(2)]]]
    show ?thesis by simp
  qed simp
qed

text \<open>An entry for the root is below every bound, so the iterator never reaches the begin of the table.\<close>

lemma root_entry_below:
  assumes inv: "table_inv table" and root: "Path True [] \<in> fst ` set table"
  shows "0 < map_upper_bound ComparePathSegments (Path True ns) table"
proof -
  from root obtain j where j: "j < length table" "fst (table ! j) = Path True []"
    by (metis imageE in_set_conv_nth)
  then have "prefix (elems (fst (table ! j))) (elems (Path True ns))" by (simp add: elems_def)
  from path_map.prefix_entry_below [OF table_invD(1) [OF inv] j(1) this] show ?thesis by simp
qed

lemma lookup_unbounded_never_ends:
  assumes inv: "table_inv table" and path: "normal_abs path"
    and none: "\<And>e. e \<in> set table \<Longrightarrow> \<not> candidate extract path e"
    and root: "Path True [] \<in> fst ` set table"
    and it: "0 < it" "it \<le> length table"
  shows "lookup_unbounded table extract path it = None"
proof (rule ccontr)
  assume "lookup_unbounded table extract path it \<noteq> None"
  then obtain r where ret: "lookup_unbounded table extract path it = Some r" by blast
  let ?P = "\<lambda>table' extract' path' it (r :: (VirtualPath \<times> fs_path) option).
    table' = table \<longrightarrow> extract' = extract \<longrightarrow> path' = path \<longrightarrow> it \<le> length table \<longrightarrow> it = 0"
  have "?P table extract path it r"
  proof (rule lookup_unbounded.raw_induct [where P = ?P, OF _ ret], goal_cases step)
    case (step f table' extract' path' it r)
    show ?case
    proof (intro impI, rule ccontr)
      assume eqs: "table' = table" "extract' = extract" "path' = path" and it: "it \<le> length table" "it \<noteq> 0"
      let ?e = "table ! (it - 1)"
      let ?next = "map_upper_bound ComparePathSegments (next_bound (fst ?e) path) table"
      have refused: "\<not> candidate extract path ?e" using it by (intro none) simp
      have "f table extract path ?next = Some r"
        using step(2) it(2) unfolding eqs
        by (simp only: Let_def if_not_P [OF refused_code [OF refused]] next_bound_code [OF path] if_False)
      from step(1) [OF this] have "?next = 0" by (simp add: path_map.upper_bound_le)
      moreover have "0 < ?next" unfolding next_bound_def by (rule root_entry_below [OF inv root])
      ultimately show False by simp
    qed
  qed
  with it show False by simp
qed

section \<open>What the table guarantees\<close>

text \<open>The normal absolute path a request is about.\<close>

definition requested_path :: "string \<Rightarrow> string \<Rightarrow> fs_path" where
  "requested_path cwd path = make_normal (path_of_string cwd) (path_of_string path)"

lemma requested_path_normal:
  assumes "has_root (path_of_string cwd) \<or> has_root (path_of_string path)"
  shows "normal_abs (requested_path cwd path)"
  using assms unfolding requested_path_def make_normal_def is_relative_def
  by (auto simp: has_root_append path_wf_append path_wf_path_of_string intro!: normal_dir_normal)

lemma lookup_allowed_path_eq:
  assumes "table_inv table" "normal_abs (requested_path cwd path)"
  shows "lookup_allowed_path path cwd table extract =
    (case deciding_entry table extract (requested_path cwd path) of
       Some e \<Rightarrow> (True, string_of_path (translated (requested_path cwd path) e))
     | None \<Rightarrow> (False, path))"
  using lookup_entry_eq [OF assms]
  by (simp add: lookup_allowed_path_def requested_path_def split: option.splits)

lemma translated_normal:
  assumes "entry_ok e" "normal_abs path"
  shows "normal_abs (translated path e)" "prefix (elems (real_path (snd e))) (elems (translated path e))"
proof -
  have "list_all clean_name (drop (length (names (fst e))) (names path))"
    using assms(2) by (auto simp: normal_abs_def list_all_iff dest: in_set_dropD)
  then show "normal_abs (translated path e)"
    using assms by (simp add: translated_def normal_abs_def entry_ok_def)
  show "prefix (elems (real_path (snd e))) (elems (translated path e))"
    using assms by (simp add: translated_def elems_def entry_ok_def normal_abs_def)
qed

text \<open>
  C1: \<open>lookup_allowed_path\<close> grants a path exactly when some entry of the table whose permissions
  the caller accepts is the path or one of its ancestors.  It then decides by the most specific
  such entry (every other one is an ancestor of it) and rewrites the path to the entry's real path
  followed by the rest of the requested path; a refused path is left unchanged.
\<close>

theorem lookup_decides_by_most_specific_entry:
  assumes "table_inv table"
    and "has_root (path_of_string cwd) \<or> has_root (path_of_string path)"
  shows "if \<exists>e \<in> set table. candidate extract (requested_path cwd path) e
    then \<exists>e \<in> set table. candidate extract (requested_path cwd path) e \<and>
      (\<forall>e' \<in> set table. candidate extract (requested_path cwd path) e' \<longrightarrow>
         prefix (elems (fst e')) (elems (fst e))) \<and>
      lookup_allowed_path path cwd table extract =
        (True, string_of_path (translated (requested_path cwd path) e))
    else lookup_allowed_path path cwd table extract = (False, path)"
proof -
  let ?p = "requested_path cwd path"
  note eq = lookup_allowed_path_eq [OF assms(1) requested_path_normal [OF assms(2)]]
  show ?thesis
  proof (cases "deciding_entry table extract ?p")
    case None
    then have "\<not> (\<exists>e \<in> set table. candidate extract ?p e)"
      by (simp add: deciding_entry_None_iff)
    then show ?thesis by (simp only: eq None if_False option.simps)
  next
    case (Some e)
    then have "e \<in> set table" "candidate extract ?p e"
      using deciding_entry_Some [OF Some] by auto
    then show ?thesis
      using Some deciding_entry_longest [OF assms(1) Some] by (auto simp: eq intro!: bexI [of _ e])
  qed
qed

text \<open>
  C2: No path escapes the sandbox lexically: whatever a request contains (\<open>..\<close>, \<open>.\<close>, repeated
  separators, a relative path), a granted path is absolute, has no \<open>..\<close> or \<open>.\<close> element, and lies at
  or below the real path of an entry whose permissions the caller accepts.
\<close>

theorem granted_path_stays_below_real_path:
  assumes "table_inv table"
    and "has_root (path_of_string cwd) \<or> has_root (path_of_string path)"
    and "lookup_allowed_path path cwd table extract = (True, out)"
  shows "\<exists>e \<in> set table. extract (snd e) \<and> normal_abs (path_of_string out) \<and>
    prefix (elems (real_path (snd e))) (elems (path_of_string out))"
proof -
  let ?p = "requested_path cwd path"
  have normal: "normal_abs ?p" by (rule requested_path_normal [OF assms(2)])
  from assms(3) obtain e where d: "deciding_entry table extract ?p = Some e"
      and out: "out = string_of_path (translated ?p e)"
    by (auto simp: lookup_allowed_path_eq [OF assms(1) normal] split: option.splits)
  have e: "e \<in> set table" "extract (snd e)"
    using deciding_entry_Some [OF d] by (auto simp: candidate_def)
  note t = translated_normal [OF table_invD(2) [OF assms(1) e(1)] normal]
  have "path_of_string out = translated ?p e"
    unfolding out by (rule path_of_string_of_path [OF normal_abs_wf [OF t(1)]])
  with e t show ?thesis by auto
qed

text \<open>
  C32: What the failsafe counter of the loop does.  It never costs a grant: the search without the
  counter returns a grant exactly when the code's loop does, and the same one.  It is needed, though:
  when no entry is acceptable the search without it ends only if the table has no entry for the root
  directory; with a root entry the iterator comes back to that entry for ever, and the counter alone
  turns the search into a refusal.
\<close>

theorem failsafe_ends_exactly_the_endless_searches:
  assumes "table_inv table" "normal_abs path"
  shows "lookup_unbounded table extract path (map_upper_bound ComparePathSegments path table) =
    (case lookup_entry table extract path of
       Some grant \<Rightarrow> Some (Some grant)
     | None \<Rightarrow> if Path True [] \<in> fst ` set table then None else Some None)"
proof (cases "lookup_entry table extract path")
  case (Some grant)
  then have "lookup_unbounded table extract path (map_upper_bound ComparePathSegments path table) =
      Some (Some grant)"
    unfolding lookup_entry_def by (rule lookup_loop_unbounded)
  with Some show ?thesis by simp
next
  case None
  then have none: "\<And>e. e \<in> set table \<Longrightarrow> \<not> candidate extract path e"
    by (simp add: lookup_entry_eq [OF assms] deciding_entry_None_iff)
  have bound: "0 < map_upper_bound ComparePathSegments path table" if "Path True [] \<in> fst ` set table"
    using root_entry_below [OF assms(1) that, of "names path"] assms(2)
    by (cases path) (simp add: normal_abs_def)
  show ?thesis
    using None lookup_unbounded_ends [OF assms none _ path_map.upper_bound_le]
      lookup_unbounded_never_ends [OF assms none _ bound path_map.upper_bound_le]
    by simp
qed

text \<open>
  \<open>ensure_path\<close> keeps the table in key order with absolute normal keys and real paths, whatever
  strings it is called with, as long as the current directory is absolute.
\<close>

lemma ensure_path_keeps_table:
  assumes "table_inv table" "normal_abs cur"
  shows "table_inv (ensure_path cur (path_of_string src) (path_of_string dst) table r w s)"
  using assms by (intro ensure_path_inv make_normal_string)

lemma table_distinct: "table_inv table \<Longrightarrow> distinct (map fst table)"
  by (rule path_map.distinct_keys [OF table_invD(1)])

lemma ensure_path_map_of:
  assumes "table_inv table" "normal_abs (make_normal cur src)" "normal_abs (make_normal cur dst)"
  shows "map_of (ensure_path cur src dst table r w s) =
    (map_of table)(make_normal cur src \<mapsto>
      (case map_of table (make_normal cur src) of
         None \<Rightarrow> \<lparr>real_path = make_normal cur dst, virtual_path = make_normal cur src,
                  readable = r, writable = w, symlink = s\<rparr>
       | Some old \<Rightarrow> old\<lparr>real_path := make_normal cur dst, readable := readable old \<or> r,
                       writable := writable old \<or> w, symlink := symlink old \<or> s\<rparr>))"
proof (rule ensure_path_cases [OF assms(1,2), of dst r w s], goal_cases new old)
  case new
  have "distinct (map fst (ensure_path cur src dst table r w s))"
    by (rule table_distinct [OF ensure_path_inv [OF assms]])
  then have "map_of (ensure_path cur src dst table r w s) = (map_of table)(make_normal cur src \<mapsto>
      \<lparr>real_path = make_normal cur dst, virtual_path = make_normal cur src,
       readable = r, writable = w, symlink = s\<rparr>)"
    using new table_distinct [OF assms(1)] by (intro map_of_insert_new) auto
  moreover have "map_of table (make_normal cur src) = None"
    using new(1) by (simp add: map_of_eq_None_iff)
  ultimately show ?case by simp
next
  case (old it vpath)
  have "(make_normal cur src, vpath) \<in> set table" using old nth_mem by metis
  then have "map_of table (make_normal cur src) = Some vpath"
    using table_distinct [OF assms(1)] by simp
  then show ?case
    using old table_distinct [OF assms(1)] by (simp add: map_of_list_update)
qed

text \<open>
  C17: As a map from guest paths to entries, \<open>ensure_path\<close> changes the entry of the source path only:
  a new entry has the given permissions, an existing one gets the new real path and keeps every
  permission it had.
\<close>

theorem ensure_path_refines_map_update:
  assumes "table_inv table" "normal_abs (make_normal cur src)" "normal_abs (make_normal cur dst)"
  shows "map_of (ensure_path cur src dst table r w s) =
    (map_of table)(make_normal cur src \<mapsto>
      (case map_of table (make_normal cur src) of
         None \<Rightarrow> \<lparr>real_path = make_normal cur dst, virtual_path = make_normal cur src,
                  readable = r, writable = w, symlink = s\<rparr>
       | Some old \<Rightarrow> old\<lparr>real_path := make_normal cur dst, readable := readable old \<or> r,
                       writable := writable old \<or> w, symlink := symlink old \<or> s\<rparr>))"
  using assms by (rule ensure_path_map_of)

text \<open>The guest paths that carry a permission.\<close>

definition granted :: "(VirtualPath \<Rightarrow> bool) \<Rightarrow> allowed_paths \<Rightarrow> fs_path set" where
  "granted perm table = {k. \<exists>v. (k, v) \<in> set table \<and> perm v}"

lemma granted_Nil [simp]: "granted perm [] = {}"
  by (simp add: granted_def)

lemma granted_map_of: "table_inv table \<Longrightarrow> granted perm table = {k. \<exists>v. map_of table k = Some v \<and> perm v}"
  using table_distinct [of table] by (auto simp: granted_def)

lemma granted_ensure_path:
  assumes "table_inv table" "normal_abs (make_normal cur src)" "normal_abs (make_normal cur dst)"
  shows "granted readable (ensure_path cur src dst table r w s) =
      granted readable table \<union> (if r then {make_normal cur src} else {})"
    and "granted writable (ensure_path cur src dst table r w s) =
      granted writable table \<union> (if w then {make_normal cur src} else {})"
  unfolding granted_map_of [OF assms(1)] granted_map_of [OF ensure_path_inv [OF assms]]
    ensure_path_map_of [OF assms]
  by (auto split: option.splits if_splits)

lemma lookup_granted_iff:
  assumes "table_inv table" "has_root (path_of_string cwd) \<or> has_root (path_of_string path)"
  shows "fst (lookup_allowed_path path cwd table extract) \<longleftrightarrow>
    (\<exists>k \<in> granted extract table. prefix (elems k) (elems (requested_path cwd path)))"
proof -
  have "fst (lookup_allowed_path path cwd table extract) \<longleftrightarrow>
      deciding_entry table extract (requested_path cwd path) \<noteq> None"
    unfolding lookup_allowed_path_eq [OF assms(1) requested_path_normal [OF assms(2)]]
    by (simp split: option.splits)
  also have "\<dots> \<longleftrightarrow> (\<exists>e \<in> set table. candidate extract (requested_path cwd path) e)"
    unfolding deciding_entry_None_iff by blast
  also have "\<dots> \<longleftrightarrow> (\<exists>k \<in> granted extract table. prefix (elems k) (elems (requested_path cwd path)))"
    by (force simp: candidate_def granted_def)
  finally show ?thesis .
qed

lemma lookup_own_key:
  assumes inv: "table_inv table" and e: "(k, v) \<in> set table" "extract v"
  shows "lookup_allowed_path (string_of_path k) cwd table extract = (True, string_of_path (real_path v))"
proof -
  have k: "normal_abs k" "normal_abs (real_path v)"
    using table_invD(2) [OF inv e(1)] by (simp_all add: entry_ok_def)
  have req: "requested_path cwd (string_of_path k) = k"
    using k(1) path_of_string_of_path [OF normal_abs_wf [OF k(1)]]
    by (simp add: requested_path_def make_normal_def is_relative_def normal_abs_def normal_dir_id)
  have cand: "candidate extract k (k, v)" using e(2) by (simp add: candidate_def)
  then obtain d where d: "deciding_entry table extract k = Some d"
    using e(1) deciding_entry_None_iff [of table] by fastforce
  then have dm: "d \<in> set table" "candidate extract k d" using deciding_entry_Some [OF d] by auto
  then have "elems (fst d) = elems k"
    using deciding_entry_longest [OF inv d e(1) cand]
    by (auto simp: candidate_def intro: prefix_order.antisym)
  then have "fst d = k"
    using table_invD(2) [OF inv dm(1)] k(1) by (auto simp: entry_ok_def intro: elems_inj normal_abs_wf)
  then have "d = (k, v)"
    using dm(1) e(1) eq_key_imp_eq_value [OF table_distinct [OF inv]] by (cases d) auto
  moreover have "translated k (k, v) = real_path v"
    using k(2) by (cases "real_path v") (simp add: translated_def normal_abs_def)
  ultimately show ?thesis
    using d k(1) by (simp add: lookup_allowed_path_eq [OF inv] req)
qed

lemma open_readable_refused:
  assumes inv: "table_inv table" and p: "normal_abs p"
    and "\<forall>k \<in> granted readable table. \<not> prefix (elems k) (elems p)"
  shows "open_readable table cwd (string_of_path p) = (False, string_of_path p)"
proof -
  have "path_of_string (string_of_path p) = p" by (rule path_of_string_of_path [OF normal_abs_wf [OF p]])
  then have req: "requested_path cwd (string_of_path p) = p"
    using p by (simp add: requested_path_def make_normal_def is_relative_def normal_abs_def normal_dir_id)
  have "deciding_entry table readable p = None"
    using assms(3) by (force simp: deciding_entry_None_iff candidate_def granted_def)
  then show ?thesis
    using p unfolding open_readable_def by (simp add: lookup_allowed_path_eq [OF inv] req)
qed

lemma ensure_path_entry:
  assumes "table_inv table" "normal_abs (make_normal cur src)"
  obtains v where "(make_normal cur src, v) \<in> set (ensure_path cur src dst table r w s)"
    "real_path v = make_normal cur dst" "r \<Longrightarrow> readable v" "w \<Longrightarrow> writable v" "s \<Longrightarrow> symlink v"
proof (rule ensure_path_cases [OF assms, of dst r w s], goal_cases new old)
  case new
  show ?case by (rule that [where v = "\<lparr>real_path = make_normal cur dst,
      virtual_path = make_normal cur src, readable = r, writable = w, symlink = s\<rparr>"])
    (simp_all add: new(4))
next
  case (old it vpath)
  show ?case by (rule that [where v = "vpath\<lparr>real_path := make_normal cur dst,
      readable := readable vpath \<or> r, writable := writable vpath \<or> w,
      symlink := symlink vpath \<or> s\<rparr>"])
    (simp_all add: old(4) set_update_memI [OF old(2)])
qed

lemma open_readable_ensured:
  assumes "table_inv table" "normal_abs (make_normal cur src)" "normal_abs (make_normal cur dst)"
  shows "open_readable (ensure_path cur src dst table True w s) cwd (string_of_path (make_normal cur src)) =
    (True, string_of_path (make_normal cur dst))"
proof -
  obtain v where v: "(make_normal cur src, v) \<in> set (ensure_path cur src dst table True w s)"
      "real_path v = make_normal cur dst" "readable v"
    using ensure_path_entry [OF assms(1,2), of dst True w s] by auto
  show ?thesis
    unfolding open_readable_def v(2) [symmetric]
    by (rule lookup_own_key [OF ensure_path_inv [OF assms] v(1), of "readable"]) (rule v(3))
qed

section \<open>Witnesses\<close>

text \<open>
  A table with the root writable and one directory readable under another name, as the options
  \<^verbatim>\<open>--allow-write=/ --volume=/srv/www:/var/data:r\<close> give it.
\<close>

definition example_table :: allowed_paths where
  "example_table =
     ensure_path (Path True [''home'']) (path_of_string ''/srv/www'') (path_of_string ''/var/data'')
       (ensure_path (Path True [''home'']) (path_of_string ''/'') (path_of_string ''/'') [] False True False)
       True False False"

lemma example_table_inv: "table_inv example_table"
  by code_simp

theorem lookup_decides_by_most_specific_entry_witness:
  "table_inv example_table \<and>
   (\<exists>e \<in> set example_table. candidate readable (requested_path ''/'' ''/srv//www/./x'') e \<and>
      lookup_allowed_path ''/srv//www/./x'' ''/'' example_table readable =
        (True, string_of_path (translated (requested_path ''/'' ''/srv//www/./x'') e)))"
proof -
  have "has_root (path_of_string ''/'') \<or> has_root (path_of_string ''/srv//www/./x'')" by code_simp
  moreover have "\<exists>e \<in> set example_table. candidate readable (requested_path ''/'' ''/srv//www/./x'') e"
    by code_simp
  ultimately show ?thesis
    using lookup_decides_by_most_specific_entry
        [OF example_table_inv, of "''/''" "''/srv//www/./x''" readable] example_table_inv
    by (simp only: if_True) blast
qed

theorem granted_path_stays_below_real_path_witness:
  "lookup_allowed_path ''www/../www/x'' ''/srv'' example_table readable = (True, ''/var/data/x'') \<and>
   (\<exists>e \<in> set example_table. readable (snd e) \<and> normal_abs (path_of_string ''/var/data/x'') \<and>
      prefix (elems (real_path (snd e))) (elems (path_of_string ''/var/data/x'')))"
proof -
  have root: "has_root (path_of_string ''/srv'') \<or> has_root (path_of_string ''www/../www/x'')"
    by code_simp
  have "lookup_allowed_path ''www/../www/x'' ''/srv'' example_table readable = (True, ''/var/data/x'')"
    by code_simp
  with granted_path_stays_below_real_path [OF example_table_inv root this] show ?thesis by blast
qed

theorem failsafe_ends_exactly_the_endless_searches_witness:
  "lookup_entry example_table readable (Path True [''etc'']) = None \<and>
   lookup_unbounded example_table readable (Path True [''etc''])
     (map_upper_bound ComparePathSegments (Path True [''etc'']) example_table) = None"
proof -
  have "normal_abs (Path True [''etc''])" "lookup_entry example_table readable (Path True [''etc'']) = None"
    "Path True [] \<in> fst ` set example_table" by code_simp+
  then show ?thesis
    using failsafe_ends_exactly_the_endless_searches [OF example_table_inv, of "Path True [''etc'']" readable]
    by simp
qed

theorem ensure_path_refines_map_update_witness:
  "map_of (ensure_path (Path True []) (Path True [''srv'', ''www'']) (Path True [''opt''])
      example_table False True False) (Path True [''srv'', ''www'']) =
   Some \<lparr>real_path = Path True [''opt''], virtual_path = Path True [''srv'', ''www''],
         readable = True, writable = True, symlink = False\<rparr>"
proof -
  have "normal_abs (make_normal (Path True []) (Path True [''srv'', ''www'']))"
    "normal_abs (make_normal (Path True []) (Path True [''opt'']))" by code_simp+
  note eq = ensure_path_refines_map_update [OF example_table_inv this, of False True False]
  show ?thesis unfolding eq by code_simp
qed

end
