(* ===== verification/TextParse.thy ===== *)
theory TextParse
  imports FsPath
begin

text \<open>
  The string operations the option parsers of config.cpp use: searches of \<open>std::string\<close>, the
  splitting function \<open>split\<close> and the number conversions \<open>std::stoul\<close> and \<open>std::stoull\<close> (the decimal,
  octal and hexadecimal forms of the C++20 library).
\<close>

section \<open>Searches\<close>

text \<open>A position of type \<open>size_type\<close> is a \<open>nat\<close>; \<open>npos\<close> is \<open>None\<close>.\<close>

definition str_find :: "string \<Rightarrow> char \<Rightarrow> nat \<Rightarrow> nat option" where
  "str_find s c pos =
     (let n = pos + length (takeWhile (\<lambda>x. x \<noteq> c) (drop pos s))
      in if n < length s then Some n else None)"

definition find_first_not_of :: "string \<Rightarrow> string \<Rightarrow> nat option" where
  "find_first_not_of cs s =
     (let n = length (takeWhile (\<lambda>c. c \<in> set cs) s) in if n < length s then Some n else None)"

definition find_last_not_of :: "string \<Rightarrow> string \<Rightarrow> nat option" where
  "find_last_not_of cs s =
     (case dropWhile (\<lambda>c. c \<in> set cs) (rev s) of [] \<Rightarrow> None | _ # rest \<Rightarrow> Some (length rest))"

text \<open>\<open>substr(pos, count)\<close>, with the count cut to what is left of the string.\<close>

definition substr :: "string \<Rightarrow> nat \<Rightarrow> nat \<Rightarrow> string" where
  "substr s pos count = take count (drop pos s)"

abbreviation digits :: string where
  "digits \<equiv> ''0123456789''"

lemma str_find_Some:
  assumes "str_find s c pos = Some n"
  shows "pos \<le> n" "n < length s" "s ! n = c" "drop pos s = takeWhile (\<lambda>x. x \<noteq> c) (drop pos s) @ c # drop (Suc n) s"
proof -
  let ?t = "takeWhile (\<lambda>x. x \<noteq> c) (drop pos s)"
  from assms have n: "n = pos + length ?t" "n < length s"
    by (auto simp: str_find_def Let_def split: if_splits)
  then show "pos \<le> n" "n < length s" by auto
  have "length ?t < length (drop pos s)" using n by simp
  then have "drop pos s ! length ?t = c"
    using nth_length_takeWhile [of "\<lambda>x. x \<noteq> c" "drop pos s"] by simp
  then show c: "s ! n = c" using n by simp
  have "drop pos s = ?t @ drop (length ?t) (drop pos s)"
    by (metis takeWhile_eq_take append_take_drop_id)
  also have "drop (length ?t) (drop pos s) = drop n s" using n by (simp add: add.commute)
  also have "drop n s = c # drop (Suc n) s" using n(2) c by (metis Cons_nth_drop_Suc)
  finally show "drop pos s = ?t @ c # drop (Suc n) s" .
qed

lemma str_find_progress: "str_find s c pos = Some n \<Longrightarrow> length s - Suc n < length s - pos"
  using str_find_Some(1,2) [of s c pos n] by linarith

lemma str_find_None:
  assumes "str_find s c pos = None"
  shows "c \<notin> set (drop pos s)"
proof
  assume "c \<in> set (drop pos s)"
  then have "length (takeWhile (\<lambda>x. x \<noteq> c) (drop pos s)) < length (drop pos s)"
    by (metis (mono_tags, lifting) length_takeWhile_le le_neq_implies_less takeWhile_eq_all_conv
        takeWhile_eq_take take_all_iff)
  with assms show False by (auto simp: str_find_def Let_def split: if_splits)
qed

section \<open>Splitting\<close>

text \<open>The loop of \<open>split\<close>, with the two positions and the output vector it updates.\<close>

function split_loop :: "string \<Rightarrow> char \<Rightarrow> nat \<Rightarrow> nat \<Rightarrow> string list \<Rightarrow> string list" where
  "split_loop s sep prev_pos pos out =
     (case str_find s sep pos of
        None \<Rightarrow> out @ [drop prev_pos s]
      | Some p \<Rightarrow> split_loop s sep (Suc p) (Suc p) (out @ [substr s prev_pos (p - prev_pos)]))"
  by pat_completeness auto
termination
  by (relation "measure (\<lambda>(s, sep, prev_pos, pos, out). length s - pos)")
    (auto intro: str_find_progress)

declare split_loop.simps [simp del]

definition split :: "string \<Rightarrow> char \<Rightarrow> string list" where
  "split s sep = split_loop s sep 0 0 []"

lemma split_loop_pieces: "split_loop s sep pos pos out = out @ pieces sep (drop pos s)"
proof (induction "length s - pos" arbitrary: pos out rule: less_induct)
  case less
  show ?case
  proof (cases "str_find s sep pos")
    case None
    then show ?thesis
      using pieces_no_sep [OF str_find_None [OF None]] by (simp add: split_loop.simps)
  next
    case (Some p)
    note p = str_find_Some [OF Some]
    let ?t = "takeWhile (\<lambda>x. x \<noteq> sep) (drop pos s)"
    have len: "length ?t = p - pos"
      using Some by (auto simp: str_find_def Let_def split: if_splits)
    have "substr s pos (p - pos) = ?t" 
      unfolding substr_def len [symmetric] by (rule takeWhile_eq_take [symmetric])
    moreover have "split_loop s sep (Suc p) (Suc p) (out @ [?t]) =
        (out @ [?t]) @ pieces sep (drop (Suc p) s)"
      using p by (intro less) simp
    moreover have "sep \<notin> set ?t" by (auto dest: set_takeWhileD)
    ultimately show ?thesis
      using Some p(4) pieces_append_sep [of sep ?t "drop (Suc p) s"] by (simp add: split_loop.simps)
  qed
qed

lemma split_eq_pieces: "split s sep = pieces sep s"
  by (simp add: split_def split_loop_pieces)

section \<open>Errors and number conversions\<close>


text \<open>
  The exceptions an option handler throws, with the two texts of \<open>CLI::ValidationError\<close>.
  \<open>UndefinedBehaviour\<close> is no exception of the code: it marks a call whose behaviour the C++ standard
  leaves undefined.
\<close>

datatype config_error = ValidationError string string | UndefinedBehaviour string

datatype conv_error = InvalidArgument | OutOfRange

definition is_space :: "char \<Rightarrow> bool" where
  "is_space c \<longleftrightarrow> of_char c \<in> {9, 10, 11, 12, 13, 32 :: nat}"

text \<open>The value of a digit, in any base up to sixteen.\<close>

definition digit_val :: "char \<Rightarrow> nat option" where
  "digit_val c =
     (let n = of_char c :: nat
      in if 48 \<le> n \<and> n \<le> 57 then Some (n - 48)
         else if 65 \<le> n \<and> n \<le> 70 then Some (n - 55)
         else if 97 \<le> n \<and> n \<le> 102 then Some (n - 87)
         else None)"

definition is_digit :: "nat \<Rightarrow> char \<Rightarrow> bool" where
  "is_digit base c = (case digit_val c of Some d \<Rightarrow> d < base | None \<Rightarrow> False)"

definition digits_value :: "nat \<Rightarrow> string \<Rightarrow> nat" where
  "digits_value base ds = foldl (\<lambda>n c. n * base + (case digit_val c of Some d \<Rightarrow> d | None \<Rightarrow> 0)) 0 ds"

text \<open>The base a numeral is read in, and the text of its digits: a prefix is skipped in base 0 (or 16).\<close>

definition numeral_base :: "nat \<Rightarrow> string \<Rightarrow> nat \<times> string" where
  "numeral_base base s =
     (if (base = 0 \<or> base = 16) \<and> 2 < length s \<and> s ! 0 = CHR ''0'' \<and> (s ! 1 = CHR ''x'' \<or> s ! 1 = CHR ''X'')
         \<and> is_digit 16 (s ! 2) then (16, drop 2 s)
      else if base = 0 then (if s \<noteq> [] \<and> hd s = CHR ''0'' then (8, s) else (10, s))
      else (base, s))"

definition stoull :: "nat \<Rightarrow> string \<Rightarrow> conv_error + u64" where
  "stoull base s =
     (let s = dropWhile is_space s;
          neg = (s \<noteq> [] \<and> hd s = CHR ''-'');
          s = (if s \<noteq> [] \<and> (hd s = CHR ''-'' \<or> hd s = CHR ''+'') then tl s else s);
          b = fst (numeral_base base s);
          ds = takeWhile (is_digit b) (snd (numeral_base base s));
          n = digits_value b ds
      in if ds = [] then Inl InvalidArgument
         else if 2 ^ 64 \<le> int n then Inl OutOfRange
         else Inr (if neg then - word_of_nat n else word_of_nat n))"

section \<open>Properties\<close>

lemma length_pieces: "length (pieces sep s) = Suc (count_list s sep)"
  by (induction s) (auto split: list.splits)

text \<open>
  \<open>split\<close> loses nothing: joining its parts with the separator gives the string back, no part
  contains the separator, and there is one part more than there are separators.
\<close>

lemma split_parts:
  "join sep (split s sep) = s \<and> list_all (\<lambda>p. sep \<notin> set p) (split s sep) \<and>
   length (split s sep) = Suc (count_list s sep)"
  by (simp add: split_eq_pieces join_pieces list_all_iff pieces_piece_no_sep length_pieces)

lemma split_not_Nil [simp]: "split s sep \<noteq> []"
  by (simp add: split_eq_pieces)

lemma split_no_sep: "sep \<notin> set s \<Longrightarrow> split s sep = [s]"
  by (simp add: split_eq_pieces pieces_no_sep)

lemma split_append: "sep \<notin> set p \<Longrightarrow> split (p @ sep # s) sep = p # split s sep"
  by (simp add: split_eq_pieces pieces_append_sep)

text \<open>Decimal digits: the converter reads all of them, with no sign, space or prefix before.\<close>

lemma digits_decimal: "list_all (\<lambda>c. is_digit 10 c \<and> \<not> is_space c \<and> c \<noteq> CHR ''-'' \<and> c \<noteq> CHR ''+'') digits"
  by code_simp

lemma digitD:
  assumes "c \<in> set digits"
  shows "is_digit 10 c" "\<not> is_space c" "c \<noteq> CHR ''-''" "c \<noteq> CHR ''+''"
  using assms digits_decimal unfolding list_all_iff by blast+

lemma stoull_digits:
  assumes "ds \<noteq> []" "set ds \<subseteq> set digits"
  shows "stoull 10 ds =
    (if 2 ^ 64 \<le> digits_value 10 ds then Inl OutOfRange else Inr (word_of_nat (digits_value 10 ds)))"
proof -
  obtain c cs where ds: "ds = c # cs" using assms(1) by (cases ds) auto
  have c: "c \<in> set digits" using assms(2) ds by auto
  have "dropWhile is_space ds = ds" using digitD(2) [OF c] ds by simp
  moreover have "hd ds \<noteq> CHR ''-''" "hd ds \<noteq> CHR ''+''" using digitD(3,4) [OF c] ds by simp_all
  moreover have "takeWhile (is_digit 10) ds = ds"
    using assms(2) digitD(1) unfolding takeWhile_eq_all_conv by blast
  moreover have "numeral_base 10 ds = (10, ds)" by (simp add: numeral_base_def)
  moreover have "2 ^ 64 \<le> int (digits_value 10 ds) \<longleftrightarrow> 2 ^ 64 \<le> digits_value 10 ds" by simp
  ultimately show ?thesis
    using assms(1) by (simp add: stoull_def Let_def del: takeWhile_eq_all_conv)
qed

lemma stoull_Nil: "stoull base [] = Inl InvalidArgument"
  by (simp add: stoull_def numeral_base_def)

text \<open>The last character of a text that is not a digit, when digits follow it.\<close>

lemma find_last_not_of_snoc:
  assumes "c \<notin> set cs" "set ds \<subseteq> set cs"
  shows "find_last_not_of cs (s @ c # ds) = Some (length s)"
proof -
  have "dropWhile (\<lambda>x. x \<in> set cs) (rev ds @ c # rev s) = c # rev s"
    using assms by (subst dropWhile_append2) auto
  then show ?thesis by (simp add: find_last_not_of_def)
qed

end
