(* ===== verification/Sockets.thy ===== *)
theory Sockets
  imports Prelude
begin

text \<open>
  Socket addresses and the network access check \<open>validate_network_access\<close> (vm.cpp).  A
  \<open>sockaddr_storage\<close> is its 128 bytes, and the structures the code casts it to are views of those
  bytes, at the offsets of Linux on x86-64: the family at 0, the port at 2 (network byte order),
  the IPv4 address at 4, the IPv6 address at 8, the path of a unix socket from 2 on.
\<close>

section \<open>Byte fields\<close>

type_synonym sockaddr_storage = "u8 list"

definition field :: "nat \<Rightarrow> nat \<Rightarrow> u8 list \<Rightarrow> u8 list" where
  "field off n a = take n (drop off a)"

definition set_field :: "nat \<Rightarrow> u8 list \<Rightarrow> u8 list \<Rightarrow> u8 list" where
  "set_field off bs a = take off a @ bs @ drop (off + length bs) a"

lemma length_set_field [bytes_simps]: "off + length bs \<le> length a \<Longrightarrow> length (set_field off bs a) = length a"
  by (simp add: set_field_def)

lemma field_set_field_same [bytes_simps]:
  "off + n \<le> length a \<Longrightarrow> length bs = n \<Longrightarrow> field off n (set_field off bs a) = bs"
  by (simp add: field_def set_field_def)

lemma field_set_field_before [bytes_simps]:
  "off' + n \<le> off \<Longrightarrow> off + length bs \<le> length a \<Longrightarrow> field off' n (set_field off bs a) = field off' n a"
  by (simp add: field_def set_field_def drop_take)

lemma field_set_field_after [bytes_simps]:
  assumes "off + length bs \<le> off'" "off + length bs \<le> length a"
  shows "field off' n (set_field off bs a) = field off' n a"
  using assms by (simp add: field_def set_field_def)

section \<open>Socket addresses\<close>

text \<open>Address families, as the two bytes of \<open>ss_family\<close> in memory.\<close>

definition AF_UNSPEC :: "u8 list" where "AF_UNSPEC = [0, 0]"
definition AF_UNIX :: "u8 list" where "AF_UNIX = [1, 0]"
definition AF_INET :: "u8 list" where "AF_INET = [2, 0]"
definition AF_INET6 :: "u8 list" where "AF_INET6 = [10, 0]"

abbreviation ss_family :: "sockaddr_storage \<Rightarrow> u8 list" where
  "ss_family a \<equiv> field 0 2 a"

text \<open>\<open>sin_port\<close> and \<open>sin6_port\<close> are at the same offset.\<close>

abbreviation sin_port :: "sockaddr_storage \<Rightarrow> u8 list" where
  "sin_port a \<equiv> field 2 2 a"

abbreviation sin_addr :: "sockaddr_storage \<Rightarrow> u8 list" where
  "sin_addr a \<equiv> field 4 4 a"

abbreviation sin6_addr :: "sockaddr_storage \<Rightarrow> u8 list" where
  "sin6_addr a \<equiv> field 8 16 a"

text \<open>The C string at \<open>sun_path\<close>.\<close>

definition sun_path :: "sockaddr_storage \<Rightarrow> string" where
  "sun_path a = map (\<lambda>b. char_of (unat b)) (takeWhile (\<lambda>b. b \<noteq> 0) (drop 2 a))"

definition sockaddr_zero :: sockaddr_storage where
  "sockaddr_zero = replicate 128 0"

definition in6addr_any :: "u8 list" where
  "in6addr_any = replicate 16 0"

definition htons :: "u16 \<Rightarrow> u8 list" where
  "htons p = [ucast (drop_bit 8 p), ucast p]"

lemma length_htons [simp]: "length (htons p) = 2"
  by (simp add: htons_def)

lemma length_sockaddr_zero [simp]: "length sockaddr_zero = 128"
  by (simp add: sockaddr_zero_def)

lemma field_zero [bytes_simps]: "off + n \<le> 128 \<Longrightarrow> field off n sockaddr_zero = replicate n 0"
  by (simp add: field_def sockaddr_zero_def)

lemma length_families [simp]:
  "length AF_UNSPEC = 2" "length AF_UNIX = 2" "length AF_INET = 2" "length AF_INET6 = 2"
  by (simp_all add: AF_UNSPEC_def AF_UNIX_def AF_INET_def AF_INET6_def)

lemma families_distinct [simp]:
  "AF_INET \<noteq> AF_INET6" "AF_INET6 \<noteq> AF_INET" "AF_INET \<noteq> AF_UNSPEC" "AF_UNSPEC \<noteq> AF_INET"
  "AF_INET6 \<noteq> AF_UNSPEC" "AF_UNSPEC \<noteq> AF_INET6" "AF_UNIX \<noteq> AF_INET" "AF_UNIX \<noteq> AF_INET6"
  "AF_UNIX \<noteq> AF_UNSPEC"
  by (simp_all add: AF_UNSPEC_def AF_UNIX_def AF_INET_def AF_INET6_def)

lemma htons_inj: "htons p = htons q \<longleftrightarrow> p = q"
proof
  assume "htons p = htons q"
  then have b: "ucast (drop_bit 8 p) = (ucast (drop_bit 8 q) :: u8)" "ucast p = (ucast q :: u8)"
    by (simp_all add: htons_def)
  show "p = q"
  proof (rule bit_word_eqI)
    fix n assume n: "n < LENGTH(16)"
    show "bit p n \<longleftrightarrow> bit q n"
    proof (cases "n < 8")
      case True
      then show ?thesis using arg_cong [OF b(2), of "\<lambda>w. bit w n"] by (simp add: bit_ucast_iff)
    next
      case False
      then have "n - 8 < 8" using n by auto
      then show ?thesis
        using False arg_cong [OF b(1), of "\<lambda>w. bit w (n - 8)"]
        by (simp add: bit_ucast_iff bit_drop_bit_eq)
    qed
  qed
qed simp

lemma htons_zero: "htons 0 = [0, 0]"
  by (simp add: htons_def)

lemma htons_zero_iff: "htons p = [0, 0] \<longleftrightarrow> p = 0"
  using htons_inj [of p 0] by (simp add: htons_zero)

section \<open>The network access check\<close>

text \<open>
  One entry of an allow list against an address: the address must match or be the wildcard, and so
  must the port.
\<close>

definition allows_ipv4 :: "sockaddr_storage \<Rightarrow> sockaddr_storage \<Rightarrow> bool" where
  "allows_ipv4 addr allowed \<longleftrightarrow>
     (sin_addr addr = sin_addr allowed \<or> sin_addr allowed = replicate 4 0) \<and>
     (sin_port addr = sin_port allowed \<or> sin_port allowed = [0, 0])"

definition allows_ipv6 :: "sockaddr_storage \<Rightarrow> sockaddr_storage \<Rightarrow> bool" where
  "allows_ipv6 addr allowed \<longleftrightarrow>
     (sin6_addr allowed = in6addr_any \<or> sin6_addr allowed = sin6_addr addr) \<and>
     (sin_port allowed = [0, 0] \<or> sin_port addr = sin_port allowed)"

definition validate_network_access ::
  "sockaddr_storage \<Rightarrow> sockaddr_storage list \<Rightarrow> sockaddr_storage list \<Rightarrow> bool" where
  "validate_network_access addr allowed_ipv4 allowed_ipv6 =
     (if ss_family addr = AF_INET then list_ex (allows_ipv4 addr) allowed_ipv4
      else if ss_family addr = AF_INET6 \<or> ss_family addr = AF_UNSPEC then
        list_ex (allows_ipv6 addr) allowed_ipv6
      else False)"

lemma validate_nothing: "\<not> validate_network_access addr [] []"
  by (simp add: validate_network_access_def)

lemma validate_mono:
  assumes "validate_network_access addr v4 v6" "set v4 \<subseteq> set w4" "set v6 \<subseteq> set w6"
  shows "validate_network_access addr w4 w6"
  using assms by (auto simp: validate_network_access_def list_ex_iff split: if_splits)

end
