(* ===== verification/Addresses.thy ===== *)
theory Addresses
  imports TextParse Sockets
begin

text \<open>
  \<open>parse_addresses\<close> (config.cpp): the values of \<open>--allow-net\<close>, \<open>--allow-connect\<close> and \<open>--allow-listen\<close>
  become entries of the IPv4 and IPv6 allow lists.  The name services of the C library are
  parameters: \<open>inet_pton\<close> for the two families, and \<open>getaddrinfo\<close> as the list of results it gives.
\<close>

section \<open>Parameters\<close>

record addrinfo =
  ai_family :: "u8 list"
  ai_addr :: sockaddr_storage

record name_services =
  inet_pton4 :: "string \<Rightarrow> u8 list option"
  inet_pton6 :: "string \<Rightarrow> u8 list option"
  getaddrinfo :: "string \<Rightarrow> addrinfo list option"

type_synonym allow_lists = "sockaddr_storage list \<times> sockaddr_storage list"

section \<open>Parsing\<close>

text \<open>A zeroed \<open>sockaddr_storage\<close> with family, address and port assigned.\<close>

definition make_ipv4 :: "u8 list \<Rightarrow> u32 \<Rightarrow> sockaddr_storage" where
  "make_ipv4 a port = set_field 2 (htons (ucast port)) (set_field 4 a (set_field 0 AF_INET sockaddr_zero))"

definition make_ipv6 :: "u8 list \<Rightarrow> u32 \<Rightarrow> sockaddr_storage" where
  "make_ipv6 a port = set_field 2 (htons (ucast port)) (set_field 8 a (set_field 0 AF_INET6 sockaddr_zero))"

text \<open>
  An empty address.  The reference \<open>storage\<close> is bound to the new IPv4 entry once and for all, so the
  second assignment copies the zeroed new IPv6 entry over the IPv4 entry, and the family and port
  that follow are stored there too.
\<close>

definition add_any_address :: "u32 \<Rightarrow> allow_lists \<Rightarrow> allow_lists" where
  "add_any_address port acl =
     (let (allowed_ipv4, allowed_ipv6) = (if port = 0 then ([], []) else acl);
          storage = sockaddr_zero;
          storage = set_field 0 AF_INET storage;
          storage = set_field 2 (htons (ucast port)) storage;
          new_ipv6 = sockaddr_zero;
          storage = new_ipv6;
          storage = set_field 0 AF_INET6 storage;
          storage = set_field 2 (htons (ucast port)) storage
      in (allowed_ipv4 @ [storage], allowed_ipv6 @ [new_ipv6]))"

text \<open>The results of a name resolution, added one by one.\<close>

fun add_resolved :: "string \<Rightarrow> u32 \<Rightarrow> addrinfo list \<Rightarrow> allow_lists \<Rightarrow> config_error + allow_lists" where
  "add_resolved v port [] acl = Inr acl"
| "add_resolved v port (res # rest) (allowed_ipv4, allowed_ipv6) =
     (if ai_family res = AF_INET then
        add_resolved v port rest (allowed_ipv4 @ [make_ipv4 (sin_addr (ai_addr res)) port], allowed_ipv6)
      else if ai_family res = AF_INET6 then
        add_resolved v port rest (allowed_ipv4, allowed_ipv6 @ [make_ipv6 (sin6_addr (ai_addr res)) port])
      else Inl (ValidationError ''Invalid address family for domain'' v))"

text \<open>The port and the address part of a value; \<open>uint port\<close> keeps 32 of the 64 bits \<open>stoul\<close> returns.\<close>

definition split_port :: "string \<Rightarrow> config_error + (u32 \<times> string)" where
  "split_port v =
     (let address = (if v = ''true'' then [] else v)
      in case find_last_not_of digits address of
           None \<Rightarrow> Inr (0, address)
         | Some maybe_colon \<Rightarrow>
             if v ! maybe_colon = CHR '':'' then
               (case stoull 10 (drop (Suc maybe_colon) address) of
                  Inl _ \<Rightarrow> Inl (ValidationError ''Invalid port'' v)
                | Inr port \<Rightarrow> Inr (ucast port, take maybe_colon address))
             else Inr (0, address))"

text \<open>
  The body of the loop for one value: the first component of the result says whether the function
  returns at once.
\<close>

definition parse_address ::
  "name_services \<Rightarrow> string \<Rightarrow> allow_lists \<Rightarrow> config_error + (bool \<times> allow_lists)" where
  "parse_address net v acl =
     (if v = [] \<or> v = ''false'' then Inr (False, acl)
      else then_do (split_port v) (\<lambda>(port, address).
        if port > 65535 then Inl (ValidationError ''Invalid port'' v)
        else if address = [] then Inr (port = 0, add_any_address port acl)
        else if hd address = CHR ''['' then
          (if last address \<noteq> CHR '']'' then Inl (ValidationError ''Invalid ipv6 address'' v)
           else case inet_pton6 net (substr address 1 (length v - 2)) of
                  None \<Rightarrow> Inl (ValidationError ''Invalid IPv6 address'' v)
                | Some a \<Rightarrow> Inr (False, fst acl, snd acl @ [make_ipv6 a port]))
        else case inet_pton4 net address of
               Some a \<Rightarrow> Inr (False, fst acl @ [make_ipv4 a port], snd acl)
             | None \<Rightarrow>
                 (case getaddrinfo net address of
                    None \<Rightarrow> Inl (ValidationError ''Invalid domain name'' v)
                  | Some head \<Rightarrow> then_do (add_resolved v port head acl) (\<lambda>acl. Inr (False, acl)))))"

fun parse_addresses ::
  "name_services \<Rightarrow> string list \<Rightarrow> allow_lists \<Rightarrow> config_error + (bool \<times> allow_lists)" where
  "parse_addresses net [] acl = Inr (False, acl)"
| "parse_addresses net (v # vs) acl =
     then_do (parse_address net v acl)
       (\<lambda>(stop, acl). if stop then Inr (True, acl) else parse_addresses net vs acl)"

section \<open>Entries and what they allow\<close>

lemma length_make [simp]:
  "length a = 4 \<Longrightarrow> length (make_ipv4 a port) = 128"
  "length b = 16 \<Longrightarrow> length (make_ipv6 b port) = 128"
  by (simp_all add: make_ipv4_def make_ipv6_def length_set_field)

lemma make_ipv4_fields:
  assumes "length a = 4"
  shows "sin_addr (make_ipv4 a port) = a" "sin_port (make_ipv4 a port) = htons (ucast port)"
  using assms by (simp_all add: make_ipv4_def bytes_simps)

lemma make_ipv6_fields:
  assumes "length a = 16"
  shows "sin6_addr (make_ipv6 a port) = a" "sin_port (make_ipv6 a port) = htons (ucast port)"
  using assms by (simp_all add: make_ipv6_def bytes_simps)

lemma ucast_port_zero: "port \<le> 65535 \<Longrightarrow> (ucast port :: u16) = 0 \<longleftrightarrow> port = (0 :: u32)"
proof
  assume le: "port \<le> 65535" and z: "(ucast port :: u16) = 0"
  have "unat port \<le> 65535" using le by (simp add: word_le_nat_alt)
  moreover have "unat port mod 65536 = 0"
    using arg_cong [OF z, of unat] by (simp add: unsigned_ucast_eq take_bit_eq_mod)
  ultimately show "port = 0" by (simp add: unat_eq_zero)
qed simp

lemma allows_any_ipv4:
  fixes port :: u32
  assumes "port \<le> 65535"
  shows "allows_ipv4 addr (set_field 2 (htons (ucast port)) (set_field 0 AF_INET6 sockaddr_zero)) \<longleftrightarrow>
    sin_port addr = htons (ucast port) \<or> port = 0"
  by (simp add: allows_ipv4_def bytes_simps htons_zero_iff ucast_port_zero [OF assms])

lemma allows_any_ipv6: "allows_ipv6 addr sockaddr_zero"
  by (simp add: allows_ipv6_def bytes_simps in6addr_any_def eval_nat_numeral)

lemma validate_add_any:
  assumes "port \<le> 65535" "add_any_address port acl = (v4, v6)"
  shows "validate_network_access addr v4 v6 \<longleftrightarrow>
    (if ss_family addr = AF_INET then
       sin_port addr = htons (ucast port) \<or> port = 0 \<or> list_ex (allows_ipv4 addr) (fst acl)
     else ss_family addr = AF_INET6 \<or> ss_family addr = AF_UNSPEC)"
  using assms allows_any_ipv4 [of port addr]
  by (cases acl) (auto simp: add_any_address_def Let_def validate_network_access_def
      allows_any_ipv6 split: if_splits)

section \<open>Reading the port\<close>

lemma colon_not_digit: "CHR '':'' \<notin> set digits"
  by simp

lemma split_port_colon:
  assumes "set ds \<subseteq> set digits"
  shows "split_port (a @ CHR '':'' # ds) =
    (if ds = [] \<or> 2 ^ 64 \<le> digits_value 10 ds
     then Inl (ValidationError ''Invalid port'' (a @ CHR '':'' # ds))
     else Inr (word_of_nat (digits_value 10 ds), a))"
proof -
  have "a @ CHR '':'' # ds \<noteq> ''true''"
  proof
    assume "a @ CHR '':'' # ds = ''true''"
    then have "CHR '':'' \<in> set ''true''" by (metis in_set_conv_decomp)
    then show False by simp
  qed
  moreover have "find_last_not_of digits (a @ CHR '':'' # ds) = Some (length a)"
    by (rule find_last_not_of_snoc [OF colon_not_digit assms])
  ultimately show ?thesis
    using stoull_digits [OF _ assms]
    by (cases "ds = []") (simp_all add: split_port_def stoull_Nil ucast_word_of_nat)
qed

section \<open>What the options allow\<close>

lemma parse_addresses_true:
  "\<exists>v4 v6. parse_addresses net (''true'' # vs) acl = Inr (True, v4, v6) \<and>
     (\<forall>addr. validate_network_access addr v4 v6 \<longleftrightarrow>
        ss_family addr = AF_INET \<or> ss_family addr = AF_INET6 \<or> ss_family addr = AF_UNSPEC)"
proof -
  obtain v4 v6 where lists: "add_any_address 0 acl = (v4, v6)" by (cases "add_any_address 0 acl")
  have "split_port ''true'' = Inr (0, [])"
    by (simp add: split_port_def find_last_not_of_def)
  then have "parse_addresses net (''true'' # vs) acl = Inr (True, v4, v6)"
    using lists by (simp add: parse_address_def)
  moreover have "validate_network_access addr v4 v6 \<longleftrightarrow>
      ss_family addr = AF_INET \<or> ss_family addr = AF_INET6 \<or> ss_family addr = AF_UNSPEC" for addr
    using validate_add_any [OF _ lists, of addr] by simp
  ultimately show ?thesis by blast
qed

text \<open>
  The value \<open>true\<close> allows every IPv4, IPv6 and unspecified address and nothing else, and makes
  the function return at once, whatever was allowed before and whatever values follow.
\<close>

lemma true_allows_all_networks:
  "\<exists>v4 v6. parse_addresses net (''true'' # vs) acl = Inr (True, v4, v6) \<and>
     (\<forall>addr. validate_network_access addr v4 v6 \<longleftrightarrow>
        ss_family addr = AF_INET \<or> ss_family addr = AF_INET6 \<or> ss_family addr = AF_UNSPEC)"
  by (rule parse_addresses_true)

text \<open>
  C20: A value \<open>:port\<close> restricts IPv4 to that port but opens every IPv6 address at every port: the new
  IPv6 entry stays zeroed, because its family and port are stored in the IPv4 entry.
\<close>

theorem port_only_value_opens_all_ipv6:
  assumes "ds \<noteq> []" "set ds \<subseteq> set digits" "digits_value 10 ds < 65536" "digits_value 10 ds \<noteq> 0"
  shows "\<exists>v4 v6. parse_addresses net [CHR '':'' # ds] ([], []) = Inr (False, v4, v6) \<and>
    (\<forall>addr. validate_network_access addr v4 v6 \<longleftrightarrow>
       (if ss_family addr = AF_INET then sin_port addr = htons (word_of_nat (digits_value 10 ds))
        else ss_family addr = AF_INET6 \<or> ss_family addr = AF_UNSPEC))"
proof -
  let ?n = "digits_value 10 ds"
  let ?p = "word_of_nat ?n :: u32"
  obtain v4 v6 where acl: "add_any_address ?p ([], []) = (v4, v6)"
    by (cases "add_any_address ?p ([], [])")
  have unat: "unat ?p = ?n" using assms(3) by (simp add: unat_of_nat)
  then have le: "?p \<le> 65535" using assms(3) by (simp add: word_le_nat_alt)
  have nz: "?p \<noteq> 0" using unat assms(4) by (metis unat_0)
  have "parse_addresses net [CHR '':'' # ds] ([], []) = Inr (False, v4, v6)"
    using split_port_colon [OF assms(2), of "[]"] assms acl le nz
    by (simp add: parse_address_def)
  moreover have "(ucast ?p :: u16) = word_of_nat ?n"
    by (simp add: ucast_word_of_nat)
  ultimately show ?thesis
    using validate_add_any [OF le acl] nz by auto
qed

text \<open>
  C22: The port of a value \<open>:digits\<close> is read modulo \<open>2 ^ 32\<close> before it is checked against 65535, so a
  number beyond 32 bits is accepted as the port it wraps to; only larger remainders and numbers that
  do not fit 64 bits are refused.
\<close>

theorem port_is_checked_modulo_32_bits:
  assumes "ds \<noteq> []" "set ds \<subseteq> set digits"
  shows "parse_address net (CHR '':'' # ds) acl =
    (if 2 ^ 64 \<le> digits_value 10 ds \<or> 65535 < digits_value 10 ds mod 2 ^ 32
     then Inl (ValidationError ''Invalid port'' (CHR '':'' # ds))
     else Inr (digits_value 10 ds mod 2 ^ 32 = 0,
               add_any_address (word_of_nat (digits_value 10 ds mod 2 ^ 32)) acl))"
proof -
  let ?n = "digits_value 10 ds"
  have w: "word_of_nat (?n mod 2 ^ 32) = (word_of_nat ?n :: u32)"
    using word_of_nat_take_bit [where 'a = 32, of 32 ?n] by (simp add: take_bit_eq_mod)
  have unat: "unat (word_of_nat ?n :: u32) = ?n mod 2 ^ 32" by (simp add: unat_of_nat)
  then have gt: "word_of_nat ?n > (65535 :: u32) \<longleftrightarrow> 65535 < ?n mod 2 ^ 32"
    by (simp add: word_less_nat_alt)
  have z: "word_of_nat ?n = (0 :: u32) \<longleftrightarrow> ?n mod 2 ^ 32 = 0"
    using unat by (metis unat_eq_zero)
  show ?thesis
    using split_port_colon [OF assms(2), of "[]"] assms(1) gt z w
    by (auto simp: parse_address_def)
qed


lemma colon_value:
  assumes "v = a @ CHR '':'' # ds"
  shows "v \<noteq> []" "v \<noteq> ''false''"
proof -
  have c: "CHR '':'' \<in> set v" using assms by simp
  show "v \<noteq> []" using assms by simp
  show "v \<noteq> ''false''" using c by (cases "v = ''false''") simp_all
qed

lemma small_port:
  assumes "n < 65536"
  shows "(word_of_nat n :: u32) \<le> 65535" "(ucast (word_of_nat n :: u32) :: u16) = word_of_nat n"
    "(word_of_nat n :: u32) = 0 \<longleftrightarrow> n = 0"
proof -
  have unat: "unat (word_of_nat n :: u32) = n" using assms by (simp add: unat_of_nat)
  then show "(word_of_nat n :: u32) \<le> 65535" using assms by (simp add: word_le_nat_alt)
  show "(ucast (word_of_nat n :: u32) :: u16) = word_of_nat n" by (simp add: ucast_word_of_nat)
  show "(word_of_nat n :: u32) = 0 \<longleftrightarrow> n = 0" using unat unat_eq_zero [of "word_of_nat n :: u32"] by simp
qed

lemma validate_snoc_ipv4:
  assumes "length b = 4" "port \<le> 65535"
  shows "validate_network_access addr (v4 @ [make_ipv4 b port]) v6 \<longleftrightarrow>
    validate_network_access addr v4 v6 \<or>
    ss_family addr = AF_INET \<and> (sin_addr addr = b \<or> b = replicate 4 0) \<and>
      (sin_port addr = htons (ucast port) \<or> port = 0)"
  using assms
  by (auto simp: validate_network_access_def allows_ipv4_def make_ipv4_fields htons_zero_iff
      ucast_port_zero)

lemma validate_snoc_ipv6:
  assumes "length b = 16" "port \<le> 65535"
  shows "validate_network_access addr v4 (v6 @ [make_ipv6 b port]) \<longleftrightarrow>
    validate_network_access addr v4 v6 \<or>
    (ss_family addr = AF_INET6 \<or> ss_family addr = AF_UNSPEC) \<and>
      (sin6_addr addr = b \<or> b = in6addr_any) \<and> (sin_port addr = htons (ucast port) \<or> port = 0)"
  using assms
  by (auto simp: validate_network_access_def allows_ipv6_def make_ipv6_fields htons_zero_iff
      ucast_port_zero)

text \<open>
  C19: A value \<open>address:port\<close> with an IPv4 literal adds to what is allowed exactly the IPv4 addresses
  it names: that address (every address for \<open>0.0.0.0\<close>) at that port (every port for 0).
\<close>

theorem ipv4_literal_allows_exactly:
  assumes "a \<noteq> []" "hd a \<noteq> CHR ''[''" "inet_pton4 net a = Some b" "length b = 4"
    and "ds \<noteq> []" "set ds \<subseteq> set digits" "digits_value 10 ds < 65536"
  shows "\<exists>w4 w6. parse_address net (a @ CHR '':'' # ds) (v4, v6) = Inr (False, w4, w6) \<and>
    (\<forall>addr. validate_network_access addr w4 w6 \<longleftrightarrow>
       validate_network_access addr v4 v6 \<or>
       ss_family addr = AF_INET \<and> (sin_addr addr = b \<or> b = replicate 4 0) \<and>
       (sin_port addr = htons (word_of_nat (digits_value 10 ds)) \<or> digits_value 10 ds = 0))"
proof -
  let ?n = "digits_value 10 ds"
  note p = small_port [OF assms(7)]
  have "parse_address net (a @ CHR '':'' # ds) (v4, v6) =
      Inr (False, v4 @ [make_ipv4 b (word_of_nat ?n)], v6)"
    using split_port_colon [OF assms(6), of a] assms p(1) colon_value [OF refl, of a ds]
    by (simp add: parse_address_def)
  then show ?thesis
    using validate_snoc_ipv4 [OF assms(4) p(1), of _ v4 v6] p(2,3) by auto
qed

text \<open>
  C21: An IPv6 literal with a port, \<open>[address]:port\<close>, is never accepted: the count given to \<open>substr\<close>
  is computed from the whole value, so the closing bracket stays in the text handed to \<open>inet_pton\<close>,
  which refuses it.
\<close>

theorem ipv6_literal_with_port_is_refused:
  assumes "\<forall>s. CHR '']'' \<in> set s \<longrightarrow> inet_pton6 net s = None"
    and "set ds \<subseteq> set digits"
  shows "\<exists>what. parse_address net (CHR ''['' # a @ CHR '']'' # CHR '':'' # ds) acl =
    Inl (ValidationError what (CHR ''['' # a @ CHR '']'' # CHR '':'' # ds))"
proof -
  let ?v = "CHR ''['' # a @ CHR '']'' # CHR '':'' # ds"
  have "?v = (CHR ''['' # a @ [CHR '']'']) @ CHR '':'' # ds" by simp
  note split = split_port_colon [OF assms(2), of "CHR ''['' # a @ [CHR '']'']", folded this]
    and colon = colon_value [OF this]
  show ?thesis
  proof (cases "ds = [] \<or> 2 ^ 64 \<le> digits_value 10 ds")
    case True
    then show ?thesis using split colon by (auto simp: parse_address_def)
  next
    case False
    have "inet_pton6 net (substr (CHR ''['' # a @ [CHR '']'']) 1 (length ?v - 2)) = None"
      using assms(1) by (simp add: substr_def)
    then show ?thesis using split colon False by (auto simp: parse_address_def)
  qed
qed

text \<open>
  An IPv6 literal in brackets with no port adds exactly that address, at every port.
\<close>

lemma ipv6_literal_allows_exactly:
  assumes "inet_pton6 net a = Some b" "length b = 16"
  shows "\<exists>w4 w6. parse_address net (CHR ''['' # a @ '']'') (v4, v6) = Inr (False, w4, w6) \<and>
    (\<forall>addr. validate_network_access addr w4 w6 \<longleftrightarrow>
       validate_network_access addr v4 v6 \<or>
       (ss_family addr = AF_INET6 \<or> ss_family addr = AF_UNSPEC) \<and>
       (sin6_addr addr = b \<or> b = in6addr_any))"
proof -
  let ?v = "CHR ''['' # a @ '']''"
  have "find_last_not_of digits ((CHR ''['' # a) @ CHR '']'' # []) = Some (length (CHR ''['' # a))"
    by (rule find_last_not_of_snoc) simp_all
  moreover have "(CHR ''['' # a @ '']'') ! Suc (length a) = CHR '']''" by (simp add: nth_append)
  ultimately have "split_port ?v = Inr (0, ?v)" by (simp add: split_port_def)
  then have "parse_address net ?v (v4, v6) = Inr (False, v4, v6 @ [make_ipv6 b 0])"
    using assms by (simp add: parse_address_def substr_def)
  then show ?thesis
    using validate_snoc_ipv6 [OF assms(2), of 0 _ v4 v6] by auto
qed

section \<open>The options never revoke\<close>

lemma add_resolved_grows:
  "add_resolved v port infos (v4, v6) = Inr (w4, w6) \<Longrightarrow> set v4 \<subseteq> set w4 \<and> set v6 \<subseteq> set w6"
proof (induction infos arbitrary: v4 v6)
  case (Cons res rest)
  then show ?case by (fastforce split: if_splits)
qed simp

lemma parse_address_grows:
  assumes "parse_address net v (v4, v6) = Inr (stop, w4, w6)" "validate_network_access addr v4 v6"
  shows "validate_network_access addr w4 w6"
proof (cases "set v4 \<subseteq> set w4 \<and> set v6 \<subseteq> set w6")
  case True
  then show ?thesis using assms(2) validate_mono by blast
next
  case False
  then have "add_any_address 0 (v4, v6) = (w4, w6)"
    using assms(1) add_resolved_grows [of v _ _ v4 v6 w4 w6]
    by (fastforce simp: parse_address_def then_do_Inr_iff add_any_address_def Let_def
        split: if_splits option.splits)
  note any = validate_add_any [OF _ this, of addr]
  then show ?thesis
    using assms(2) by (auto simp: validate_network_access_def split: if_splits)
qed

text \<open>
  C18: No value of a network option takes an access away: what the lists allowed before is allowed
  after, whatever the values are and even when the lists are cleared on the way.
\<close>

theorem parse_addresses_never_revokes:
  assumes "parse_addresses net vs (v4, v6) = Inr (stop, w4, w6)" "validate_network_access addr v4 v6"
  shows "validate_network_access addr w4 w6"
  using assms
proof (induction vs arbitrary: v4 v6)
  case (Cons v vs)
  from Cons.prems(1) obtain stop' u4 u6 where u: "parse_address net v (v4, v6) = Inr (stop', u4, u6)"
      "(if stop' then Inr (True, u4, u6) else parse_addresses net vs (u4, u6)) = Inr (stop, w4, w6)"
    by (auto simp: then_do_Inr_iff)
  have "validate_network_access addr u4 u6" by (rule parse_address_grows [OF u(1) Cons.prems(2)])
  with u(2) Cons.IH show ?case by (cases stop') auto
qed simp

section \<open>The lists hold whole addresses\<close>

text \<open>What the C library promises about the sizes of the addresses it gives.\<close>

definition services_ok :: "name_services \<Rightarrow> bool" where
  "services_ok net \<longleftrightarrow> (\<forall>s a. inet_pton4 net s = Some a \<longrightarrow> length a = 4) \<and>
     (\<forall>s a. inet_pton6 net s = Some a \<longrightarrow> length a = 16) \<and>
     (\<forall>s infos. getaddrinfo net s = Some infos \<longrightarrow> list_all (\<lambda>i. length (ai_addr i) = 128) infos)"

fun lists_ok :: "allow_lists \<Rightarrow> bool" where
  "lists_ok (v4, v6) \<longleftrightarrow> list_all (\<lambda>a. length a = 128) v4 \<and> list_all (\<lambda>a. length a = 128) v6"

lemma add_any_address_ok: "lists_ok acl \<Longrightarrow> lists_ok (add_any_address port acl)"
  by (cases acl) (auto simp: add_any_address_def Let_def length_set_field)

lemma add_resolved_ok:
  assumes "add_resolved v port infos acl = Inr acl'" "lists_ok acl" "list_all (\<lambda>i. length (ai_addr i) = 128) infos"
  shows "lists_ok acl'"
  using assms
proof (induction infos arbitrary: acl)
  case (Cons i infos)
  then show ?case by (cases acl) (auto simp: field_def split: if_splits)
qed simp

lemma parse_address_ok:
  assumes "services_ok net" "parse_address net v acl = Inr (stop, acl')" "lists_ok acl"
  shows "lists_ok acl'"
proof -
  have 4: "length a = 4" if "inet_pton4 net s = Some a" for s a
    using assms(1) that unfolding services_ok_def by blast
  have 6: "length a = 16" if "inet_pton6 net s = Some a" for s a
    using assms(1) that unfolding services_ok_def by blast
  have infos: "list_all (\<lambda>i. length (ai_addr i) = 128) is" if "getaddrinfo net s = Some is" for s "is"
    using assms(1) that unfolding services_ok_def by blast
  from assms(2,3) show ?thesis
    by (cases acl) (auto simp: parse_address_def then_do_Inr_iff 4 6 intro: add_any_address_ok
        dest: infos add_resolved_ok split: if_splits option.splits)
qed

lemma parse_addresses_ok:
  assumes "services_ok net" "parse_addresses net vs acl = Inr (stop, acl')" "lists_ok acl"
  shows "lists_ok acl'"
  using assms(2,3)
proof (induction vs arbitrary: acl)
  case (Cons v vs)
  then obtain stop1 acl1 where p: "parse_address net v acl = Inr (stop1, acl1)"
      "(if stop1 then Inr (True, acl1) else parse_addresses net vs acl1) = Inr (stop, acl')"
    by (auto simp: then_do_Inr_iff)
  then show ?case using Cons.IH parse_address_ok [OF assms(1) p(1) Cons.prems(2)] by (cases stop1) auto
qed simp

section \<open>Witnesses\<close>

text \<open>Name services that know one literal of each family and no domain name.\<close>

definition example_services :: name_services where
  "example_services =
     \<lparr>inet_pton4 = (\<lambda>s. if s = ''10.0.0.1'' then Some [10, 0, 0, 1] else None),
      inet_pton6 = (\<lambda>s. if s = ''::1'' then Some (replicate 15 0 @ [1]) else None),
      getaddrinfo = (\<lambda>_. None)\<rparr>"

theorem port_only_value_opens_all_ipv6_witness:
  "\<exists>v4 v6. parse_addresses example_services ['':8080''] ([], []) = Inr (False, v4, v6) \<and>
    (\<forall>addr. validate_network_access addr v4 v6 \<longleftrightarrow>
       (if ss_family addr = AF_INET then sin_port addr = [31, 144]
        else ss_family addr = AF_INET6 \<or> ss_family addr = AF_UNSPEC))"
proof -
  have d: "digits_value 10 ''8080'' = 8080" "htons (word_of_nat 8080) = [31, 144]"
    by (simp_all add: digits_value_def digit_val_def htons_def)
  show ?thesis
    by (rule port_only_value_opens_all_ipv6 [of "''8080''" example_services, unfolded d]) simp_all
qed

theorem port_is_checked_modulo_32_bits_witness:
  "parse_address example_services '':4294967297'' ([], []) = Inr (False, add_any_address 1 ([], [])) \<and>
   parse_address example_services '':65536'' ([], []) = Inl (ValidationError ''Invalid port'' '':65536'')"
proof -
  have "digits_value 10 ''4294967297'' = 4294967297" "digits_value 10 ''65536'' = 65536"
    by (simp_all add: digits_value_def digit_val_def)
  then show ?thesis
    using port_is_checked_modulo_32_bits [of "''4294967297''" example_services]
      port_is_checked_modulo_32_bits [of "''65536''" example_services]
    by simp
qed

theorem ipv4_literal_allows_exactly_witness:
  "\<exists>w4 w6. parse_address example_services ''10.0.0.1:80'' ([], []) = Inr (False, w4, w6) \<and>
    (\<forall>addr. validate_network_access addr w4 w6 \<longleftrightarrow>
       ss_family addr = AF_INET \<and> sin_addr addr = [10, 0, 0, 1] \<and> sin_port addr = [0, 80])"
proof -
  have "inet_pton4 example_services ''10.0.0.1'' = Some [10, 0, 0, 1]"
    by (simp add: example_services_def)
  moreover have "digits_value 10 ''80'' = 80" "htons (word_of_nat 80) = [0, 80]"
    by (simp_all add: digits_value_def digit_val_def htons_def)
  moreover have "[10, 0, 0, 1] \<noteq> replicate 4 (0 :: u8)" by (simp add: numeral_eq_Suc)
  ultimately show ?thesis
    using ipv4_literal_allows_exactly [of "''10.0.0.1''" example_services "[10, 0, 0, 1]" "''80''" "[]" "[]"]
    by (simp add: validate_nothing)
qed

theorem ipv6_literal_with_port_is_refused_witness:
  "\<exists>what. parse_address example_services ''[::1]:80'' ([], []) = Inl (ValidationError what ''[::1]:80'')"
proof -
  have "\<forall>s. CHR '']'' \<in> set s \<longrightarrow> inet_pton6 example_services s = None"
    by (auto simp: example_services_def)
  from ipv6_literal_with_port_is_refused [OF this, of "''80''" "''::1''"] show ?thesis by simp
qed

theorem parse_addresses_never_revokes_witness:
  "\<exists>w4 w6. parse_addresses example_services [''false'', ''10.0.0.1:80'', ''[::1]'']
      (fst (add_any_address 22 ([], [])), []) = Inr (False, w4, w6) \<and>
    validate_network_access (set_field 2 (htons 22) (set_field 0 AF_INET sockaddr_zero)) w4 w6"
proof -
  have r: "parse_addresses example_services [''false'', ''10.0.0.1:80'', ''[::1]'']
      (fst (add_any_address 22 ([], [])), []) =
    Inr (False, fst (add_any_address 22 ([], [])) @ [make_ipv4 [10, 0, 0, 1] 80],
      [make_ipv6 (replicate 15 0 @ [1]) 0])" by code_simp
  have "validate_network_access (set_field 2 (htons 22) (set_field 0 AF_INET sockaddr_zero))
      (fst (add_any_address 22 ([], []))) []" by code_simp
  from r parse_addresses_never_revokes [OF r this] show ?thesis by blast
qed

end
