(* ===== verification/Options.thy ===== *)
theory Options
  imports AllowedPaths Addresses
begin

text \<open>
  The handlers of single option values in config.cpp: memory remappings (\<open>add_remapping\<close>), volumes,
  the program lookup (\<open>lookup_program\<close>) and the environment variables handed to the guest.
\<close>

section \<open>Memory remappings\<close>

text \<open>The members of \<open>tinykvm::VirtualRemapping\<close> the parser assigns.\<close>

record VirtualRemapping =
  rm_phys :: u64
  rm_virt :: u64
  rm_size :: u64
  rm_writable :: bool
  rm_executable :: bool

definition empty_remapping :: VirtualRemapping where
  "empty_remapping = \<lparr>rm_phys = 0, rm_virt = 0, rm_size = 0, rm_writable = False, rm_executable = False\<rparr>"

text \<open>\<open>std::stoull(item, nullptr, 0)\<close> with its two exceptions turned into validation errors.\<close>

definition convert_part :: "string \<Rightarrow> string \<Rightarrow> string \<Rightarrow> config_error + u64" where
  "convert_part what remap item =
     (case stoull 0 item of
        Inl InvalidArgument \<Rightarrow> Inl (ValidationError (''invalid argument ('' @ what @ '')'') remap)
      | Inl OutOfRange \<Rightarrow> Inl (ValidationError (''out of range ('' @ what @ '')'') remap)
      | Inr v \<Rightarrow> Inr v)"

definition char_at :: "string \<Rightarrow> nat \<Rightarrow> char \<Rightarrow> bool" where
  "char_at item i c \<longleftrightarrow> i < length item \<and> item ! i = c"

text \<open>The permission letters, then the check that no part is left.\<close>

definition remapping_rwx ::
  "string \<Rightarrow> string \<Rightarrow> string list \<Rightarrow> VirtualRemapping \<Rightarrow> config_error + VirtualRemapping" where
  "remapping_rwx remap item rest remapping =
     (let i = 0;
          i = (if char_at item i (CHR ''r'') then Suc i else i);
          w = char_at item i (CHR ''w'');
          remapping = (if w then remapping\<lparr>rm_writable := True\<rparr> else remapping);
          i = (if w then Suc i else i);
          x = char_at item i (CHR ''x'');
          remapping = (if x then remapping\<lparr>rm_executable := True\<rparr> else remapping);
          i = (if x then Suc i else i)
      in if i \<noteq> length item then Inl (ValidationError ''invalid argument (rwx)'' remap)
         else if rest \<noteq> [] then Inl (ValidationError ''too many parts'' remap)
         else Inr remapping)"

definition parse_remapping :: "string \<Rightarrow> config_error + VirtualRemapping" where
  "parse_remapping remap =
     (case split remap (CHR '':'') of
        [] \<Rightarrow> Inl (ValidationError ''too few parts'' remap)
      | item # rest \<Rightarrow> then_do (convert_part ''virt'' remap item) (\<lambda>virt.
          case rest of
            [] \<Rightarrow> Inl (ValidationError ''too few parts'' remap)
          | item # rest \<Rightarrow> then_do (convert_part ''size'' remap item) (\<lambda>mb.
              let remapping = empty_remapping\<lparr>rm_virt := virt, rm_size := mb * 2 ^ 20\<rparr>
              in case rest of
                   [] \<Rightarrow> Inr (remapping\<lparr>rm_writable := True\<rparr>)
                 | item # rest \<Rightarrow>
                     if find_first_not_of digits item \<noteq> Some 0 then
                       then_do (convert_part ''phys'' remap item) (\<lambda>phys.
                         let remapping = remapping\<lparr>rm_phys := phys\<rparr>
                         in case rest of
                              [] \<Rightarrow> Inr (remapping\<lparr>rm_writable := True\<rparr>)
                            | item # rest \<Rightarrow> remapping_rwx remap item rest remapping)
                     else remapping_rwx remap item rest remapping)))"

text \<open>
  The new entry is at the end of the vector.  An exception leaves a partly filled entry there, but
  it ends the program (\<open>FromArgs\<close> exits), so the vector is not looked at again.
\<close>

definition add_remapping :: "string \<Rightarrow> VirtualRemapping list \<Rightarrow> config_error + VirtualRemapping list" where
  "add_remapping remap remappings = then_do (parse_remapping remap) (\<lambda>r. Inr (remappings @ [r]))"

section \<open>Volumes\<close>

definition add_volume :: "fs_path \<Rightarrow> string \<Rightarrow> allowed_paths \<Rightarrow> config_error + allowed_paths" where
  "add_volume cur triple table =
     (case split triple (CHR '':'') of
        [] \<Rightarrow> Inl (ValidationError ''too few parts'' triple)
      | src # rest \<Rightarrow>
          (case rest of
             [] \<Rightarrow> Inl (ValidationError ''too few parts'' triple)
           | dst # rest \<Rightarrow>
               (case rest of
                  [] \<Rightarrow> Inr (ensure_path cur (path_of_string src) (path_of_string dst) table True False False)
                | perms # rest \<Rightarrow>
                    (let i = 0;
                         r = char_at perms i (CHR ''r'');
                         i = (if r then Suc i else i);
                         w = char_at perms i (CHR ''w'');
                         i = (if w then Suc i else i)
                     in if i \<noteq> length perms then Inl (ValidationError ''invalid argument (rw)'' perms)
                        else if rest \<noteq> [] then Inl (ValidationError ''too many parts'' triple)
                        else Inr (ensure_path cur (path_of_string src) (path_of_string dst) table r w False)))))"

section \<open>Program lookup\<close>

text \<open>
  The parts of the host the lookup reads: \<open>getenv("PATH")\<close> (\<open>None\<close> when unset),
  \<open>access(path, X_OK) == 0\<close> and the current directory.
\<close>

record host_files =
  PATH :: "string option"
  access_x :: "string \<Rightarrow> bool"
  current_path :: fs_path

text \<open>The pieces \<open>std::getline\<close> reads with delimiter \<open>:\<close>; an empty last piece is not read.\<close>

definition getlines :: "string \<Rightarrow> string list" where
  "getlines s = (let ps = pieces (CHR '':'') s in if last ps = [] then butlast ps else ps)"

fun search_path :: "host_files \<Rightarrow> string \<Rightarrow> string list \<Rightarrow> config_error + string" where
  "search_path host program [] = Inl (ValidationError ''program: Not found on path'' program)"
| "search_path host program (dirname # dirs) =
     (let filepath = string_of_path (lexically_normal (path_append (path_of_string dirname) (path_of_string program)))
      in if access_x host filepath then Inr filepath else search_path host program dirs)"

definition lookup_program :: "host_files \<Rightarrow> string \<Rightarrow> config_error + string" where
  "lookup_program host program =
     (if str_find program (CHR ''/'') 0 = None then
        (case PATH host of
           None \<Rightarrow> Inl (UndefinedBehaviour ''std::stringstream from a null getenv'')
         | Some p \<Rightarrow> search_path host program (getlines p))
      else
        let p = path_of_string program;
            absolute = (if is_relative p then path_append (current_path host) p else p);
            filepath = string_of_path (lexically_normal absolute)
        in if access_x host filepath then Inr filepath
           else Inl (ValidationError ''program: Not an executable'' program))"

section \<open>Environment variables\<close>

text \<open>The environment of the host is the list of its \<open>NAME=value\<close> strings.\<close>

definition getenv :: "string list \<Rightarrow> string \<Rightarrow> string option" where
  "getenv env name = map_option (drop (Suc (length name))) (find (prefix (name @ ''='')) env)"

definition add_env :: "string list \<Rightarrow> string \<Rightarrow> string list \<Rightarrow> config_error + string list" where
  "add_env env name acc =
     (if name = [] then Inl (UndefinedBehaviour ''back() of an empty string'')
      else if last name = CHR ''*'' then Inr (acc @ filter (prefix (butlast name)) env)
      else case getenv env name of
             None \<Rightarrow> Inl (UndefinedBehaviour ''std::string from a null getenv'')
           | Some v \<Rightarrow> Inr (acc @ [name @ ''='' @ v]))"

definition default_user :: "string list \<Rightarrow> string list" where
  "default_user environ =
     (if \<not> list_ex (prefix ''USER='') environ then environ @ [''USER=nobody''] else environ)"

definition guest_environ :: "string list \<Rightarrow> string list \<Rightarrow> string list \<Rightarrow> config_error + string list" where
  "guest_environ env allow_env environ =
     then_do (fold_result (add_env env) allow_env environ) (\<lambda>environ. Inr (default_user environ))"

section \<open>Numerals\<close>

text \<open>How a user writes a number: its digits in a base up to sixteen, with no leading zero.\<close>

definition digit_char :: "nat \<Rightarrow> char" where
  "digit_char d = ''0123456789abcdef'' ! d"

fun show_base :: "nat \<Rightarrow> nat \<Rightarrow> string" where
  "show_base b n = (if n < b \<or> b < 2 then [digit_char n] else show_base b (n div b) @ [digit_char (n mod b)])"

declare show_base.simps [simp del]

definition show_nat :: "nat \<Rightarrow> string" where
  "show_nat = show_base 10"

lemma digit_chars: "list_all (\<lambda>d. digit_val (digit_char d) = Some d \<and> (d < 10 \<longrightarrow> digit_char d \<in> set digits) \<and>
    (digit_char d = CHR ''0'' \<longleftrightarrow> d = 0) \<and> digit_char d \<noteq> CHR '':'') [0..<16]"
  by code_simp

lemma digit_char:
  assumes "d < 16"
  shows "digit_val (digit_char d) = Some d" "d < 10 \<Longrightarrow> digit_char d \<in> set digits"
    "digit_char d = CHR ''0'' \<longleftrightarrow> d = 0" "digit_char d \<noteq> CHR '':''"
proof -
  have "d \<in> set [0..<16]" using assms by simp
  then show "digit_val (digit_char d) = Some d" "d < 10 \<Longrightarrow> digit_char d \<in> set digits"
    "digit_char d = CHR ''0'' \<longleftrightarrow> d = 0" "digit_char d \<noteq> CHR '':''"
    using digit_chars unfolding list_all_iff by blast+
qed

lemma show_base_not_Nil [simp]: "show_base b n \<noteq> []"
  by (subst show_base.simps) simp

lemma show_base_small: "n < b \<Longrightarrow> show_base b n = [digit_char n]"
  by (subst show_base.simps) simp

lemma show_base_big:
  "2 \<le> b \<Longrightarrow> b \<le> n \<Longrightarrow> show_base b n = show_base b (n div b) @ [digit_char (n mod b)]"
  by (subst show_base.simps) simp

lemma numeral_induct:
  assumes "2 \<le> b" "\<And>n. n < b \<Longrightarrow> P n" "\<And>n. b \<le> n \<Longrightarrow> P (n div b) \<Longrightarrow> P n"
  shows "P (n :: nat)"
proof (induction n rule: less_induct)
  case (less n)
  then show ?case using assms by (cases "n < b") simp_all
qed

text \<open>What holds of all digits below the base holds of every digit of the numeral.\<close>

lemma show_base_all:
  assumes "2 \<le> b" "\<And>d. d < b \<Longrightarrow> P (digit_char d)"
  shows "list_all P (show_base b n)"
  using assms by (induction n rule: numeral_induct [OF assms(1)]) (simp_all add: show_base_small show_base_big)

lemma show_base_hd:
  assumes "2 \<le> b" "b \<le> 16"
  shows "hd (show_base b n) = CHR ''0'' \<longleftrightarrow> n = 0"
  using assms
  by (induction n rule: numeral_induct [OF assms(1)])
    (auto simp: show_base_small show_base_big digit_char hd_append div_eq_0_iff)

lemma digits_value_snoc:
  "digits_value base (ds @ [c]) = digits_value base ds * base + (case digit_val c of Some d \<Rightarrow> d | None \<Rightarrow> 0)"
  by (simp add: digits_value_def)

lemma digits_value_show_base:
  assumes "2 \<le> b" "b \<le> 16"
  shows "digits_value b (show_base b n) = n"
proof (induction n rule: numeral_induct [OF assms(1)])
  case (1 n)
  then show ?case using assms digit_char(1) [of n] by (simp add: show_base_small digits_value_def)
next
  case (2 n)
  have "n mod b < b" using assms by simp
  then have "n mod b < 16" using assms(2) by simp
  from digit_char(1) [OF this] show ?case using 2 assms by (simp add: show_base_big digits_value_snoc)
qed

lemma show_nat_digits: "set (show_nat n) \<subseteq> set digits"
proof -
  have "digit_char d \<in> set digits" if "d < 10" for d using that by (intro digit_char(2)) simp_all
  then have "list_all (\<lambda>c. c \<in> set digits) (show_base 10 n)" by (intro show_base_all) simp
  then show ?thesis by (auto simp: show_nat_def list_all_iff)
qed

lemma stoull_show_nat:
  assumes "n < 2 ^ 64"
  shows "stoull 0 (show_nat n) = Inr (word_of_nat n)"
proof (cases "n = 0")
  case True
  have "stoull 0 (show_nat 0) = Inr 0" by code_simp
  with True show ?thesis by simp
next
  case False
  have "stoull 0 (show_nat n) = stoull 10 (show_nat n)"
  proof -
    obtain c cs where cs: "show_nat n = c # cs"
      using show_base_not_Nil by (cases "show_nat n") (auto simp: show_nat_def)
    then have c: "c \<in> set digits" "c \<noteq> CHR ''0''"
      using show_nat_digits [of n] show_base_hd [of 10 n] False by (auto simp: show_nat_def)
    then show ?thesis
      using digitD [OF c(1)] by (simp add: stoull_def cs numeral_base_def)
  qed
  moreover have "stoull 10 (show_nat n) = Inr (word_of_nat n)"
    using stoull_digits [of "show_nat n", OF _ show_nat_digits] assms digits_value_show_base [of 10 n]
    by (simp add: show_nat_def)
  ultimately show ?thesis by simp
qed

lemma stoull_hex:
  assumes "n < 2 ^ 64"
  shows "stoull 0 (''0x'' @ show_base 16 n) = Inr (word_of_nat n)"
proof -
  have digits: "list_all (is_digit 16) (show_base 16 n)"
    by (rule show_base_all) (simp_all add: is_digit_def digit_char)
  obtain c cs where cs: "show_base 16 n = c # cs" by (cases "show_base 16 n") auto
  then have c: "is_digit 16 c" using digits by simp
  have "numeral_base 0 (''0x'' @ show_base 16 n) = (16, show_base 16 n)"
    using c by (simp add: numeral_base_def cs)
  moreover have "takeWhile (is_digit 16) (show_base 16 n) = show_base 16 n"
    unfolding takeWhile_eq_all_conv using digits by (simp add: list_all_iff)
  moreover have "dropWhile is_space (''0x'' @ show_base 16 n) = ''0x'' @ show_base 16 n"
    by (simp add: is_space_def)
  moreover have "\<not> 2 ^ 64 \<le> int n" using assms by simp
  ultimately show ?thesis
    by (simp add: stoull_def Let_def digits_value_show_base del: takeWhile_eq_all_conv)
qed

text \<open>A number as it may be written, in hexadecimal with its prefix or in decimal.\<close>

definition number_text :: "bool \<times> nat \<Rightarrow> string" where
  "number_text = (\<lambda>(hex, n). if hex then ''0x'' @ show_base 16 n else show_nat n)"

lemma convert_number: "snd n < 2 ^ 64 \<Longrightarrow> convert_part what remap (number_text n) = Inr (word_of_nat (snd n))"
  using stoull_show_nat [of "snd n"] stoull_hex [of "snd n"]
  by (cases n) (auto simp: convert_part_def number_text_def)

lemma number_no_colon: "CHR '':'' \<notin> set (number_text n)"
proof -
  have no_colon: "list_all (\<lambda>c. c \<noteq> CHR '':'') (show_base b m)" if "2 \<le> b" "b \<le> 16" for b m
    using that by (intro show_base_all) (simp_all add: digit_char)
  from no_colon [of 10 "snd n"] no_colon [of 16 "snd n"] show ?thesis
    by (cases n) (auto simp: number_text_def show_nat_def list_all_iff)
qed

text \<open>A number of either form is told from the permission letters by its first character.\<close>

lemma find_first_not_of_number: "find_first_not_of digits (number_text n) \<noteq> Some 0"
proof (cases "fst n")
  case True
  then show ?thesis by (cases n) (simp add: number_text_def find_first_not_of_def)
next
  case False
  have "takeWhile (\<lambda>c. c \<in> set digits) (show_nat (snd n)) = show_nat (snd n)"
    unfolding takeWhile_eq_all_conv using show_nat_digits by blast
  with False show ?thesis
    by (cases n) (simp add: number_text_def find_first_not_of_def del: takeWhile_eq_all_conv)
qed

section \<open>Remappings as documented\<close>

text \<open>
  The form the help text gives, \<open>virt:size(mb)[:phys=0][:r?w?x?=rw]\<close>: a text for every choice of its
  optional parts.
\<close>

definition rwx_text :: "bool \<times> bool \<times> bool \<Rightarrow> string" where
  "rwx_text = (\<lambda>(r, w, x). (if r then ''r'' else []) @ (if w then ''w'' else []) @ (if x then ''x'' else []))"

definition remapping_text ::
  "bool \<times> nat \<Rightarrow> bool \<times> nat \<Rightarrow> (bool \<times> nat) option \<Rightarrow> (bool \<times> bool \<times> bool) option \<Rightarrow> string" where
  "remapping_text virt mb phys rwx = join (CHR '':'') ([number_text virt, number_text mb]
     @ (case phys of None \<Rightarrow> [] | Some p \<Rightarrow> [number_text p])
     @ (case rwx of None \<Rightarrow> [] | Some m \<Rightarrow> [rwx_text m]))"

lemma rwx_text_no_colon: "CHR '':'' \<notin> set (rwx_text m)"
  by (cases m) (simp add: rwx_text_def)

lemma split_remapping_text:
  "split (remapping_text virt mb phys rwx) (CHR '':'') = [number_text virt, number_text mb]
     @ (case phys of None \<Rightarrow> [] | Some p \<Rightarrow> [number_text p])
     @ (case rwx of None \<Rightarrow> [] | Some m \<Rightarrow> [rwx_text m])"
  unfolding remapping_text_def split_eq_pieces
  by (rule pieces_join) (auto simp: number_no_colon rwx_text_no_colon split: option.splits)

lemma remapping_rwx_text:
  "remapping_rwx remap (rwx_text (r, w, x)) [] m =
     Inr (m\<lparr>rm_writable := rm_writable m \<or> w, rm_executable := rm_executable m \<or> x\<rparr>)"
  by (cases r; cases w; cases x) (simp_all add: remapping_rwx_def rwx_text_def char_at_def)

lemma find_first_not_of_rwx:
  "find_first_not_of digits (rwx_text m) = (if m = (False, False, False) then None else Some 0)"
  by (cases m) (auto simp: find_first_not_of_def rwx_text_def)

lemma convert_empty: "convert_part what remap [] = Inl (ValidationError (''invalid argument ('' @ what @ '')'') remap)"
  by (simp add: convert_part_def stoull_Nil)

text \<open>
  C29: A remapping written in the form the help text gives, with decimal or hexadecimal numbers, is read as
  written: the physical address defaults to 0 and the permissions to \<open>rw\<close>, and the size is the given
  number of megabytes, reduced modulo \<open>2 ^ 64\<close>.  One text of that form is refused, contrary to the help
  text: \<open>virt:size:\<close>, with none of the three letters and no physical address, because the empty part is
  taken for the physical address.
\<close>

theorem remapping_reads_documented_form:
  assumes "snd virt < 2 ^ 64" "snd mb < 2 ^ 64" "case phys of None \<Rightarrow> True | Some p \<Rightarrow> snd p < 2 ^ 64"
  shows "parse_remapping (remapping_text virt mb phys rwx) =
    (if phys = None \<and> rwx = Some (False, False, False) then
       Inl (ValidationError ''invalid argument (phys)'' (remapping_text virt mb phys rwx))
     else
       Inr \<lparr>rm_phys = word_of_nat (case phys of None \<Rightarrow> 0 | Some p \<Rightarrow> snd p), rm_virt = word_of_nat (snd virt),
            rm_size = word_of_nat (snd mb * 2 ^ 20),
            rm_writable = (case rwx of None \<Rightarrow> True | Some (r, w, x) \<Rightarrow> w),
            rm_executable = (case rwx of None \<Rightarrow> False | Some (r, w, x) \<Rightarrow> x)\<rparr>)"
proof (cases "phys = None \<and> rwx = Some (False, False, False)")
  case True
  have "rwx_text (False, False, False) = []" by (simp add: rwx_text_def)
  with True assms find_first_not_of_rwx [of "(False, False, False)"] show ?thesis
    unfolding parse_remapping_def split_remapping_text by (simp add: convert_number convert_empty)
next
  case False
  with assms find_first_not_of_rwx [of "the rwx"] find_first_not_of_number [of "the phys"] show ?thesis
    unfolding parse_remapping_def split_remapping_text
    by (cases phys; cases rwx)
      (auto simp: convert_number empty_remapping_def remapping_rwx_text split: prod.splits)
qed

section \<open>Volumes\<close>

lemma add_volume_parts:
  assumes "CHR '':'' \<notin> set src" "CHR '':'' \<notin> set dst"
  shows "add_volume cur (src @ '':'' @ dst @ (case perms of None \<Rightarrow> [] | Some (r, w) \<Rightarrow>
      '':'' @ (if r then ''r'' else []) @ (if w then ''w'' else []))) table =
    Inr (ensure_path cur (path_of_string src) (path_of_string dst) table
      (case perms of None \<Rightarrow> True | Some (r, w) \<Rightarrow> r) (case perms of None \<Rightarrow> False | Some (r, w) \<Rightarrow> w) False)"
proof (cases perms)
  case None
  then show ?thesis
    using assms by (simp add: add_volume_def split_append split_no_sep)
next
  case (Some m)
  then show ?thesis
    using assms by (cases m) (auto simp: add_volume_def split_append split_no_sep char_at_def)
qed

text \<open>
  C30: The two paths of a volume are taken in the order opposite to the documented one.  The help text and
  the README give the form \<open><host-path>:<guest-path>[:r?w?=r]\<close>; in the code the first part is the guest
  path and the second the host path.  For a readable volume \<open>first:second\<close> a guest that opens the first
  path is given the file at the second, the paths that become readable are the first and those below it,
  and the second path, at which the guest should find the volume, stays refused unless something else
  grants it.
\<close>

theorem volume_takes_the_guest_path_first:
  assumes "CHR '':'' \<notin> set first" "CHR '':'' \<notin> set second" "table_inv table" "normal_abs cur"
    and "perms = None \<or> perms = Some (True, w)"
  shows "\<exists>table'. add_volume cur (first @ '':'' @ second @ (case perms of None \<Rightarrow> [] | Some (r, w) \<Rightarrow>
      '':'' @ (if r then ''r'' else []) @ (if w then ''w'' else []))) table = Inr table' \<and>
    (let guest = make_normal cur (path_of_string first); host = make_normal cur (path_of_string second)
     in open_readable table' cwd (string_of_path guest) = (True, string_of_path host) \<and>
        granted readable table' = insert guest (granted readable table) \<and>
        ((\<forall>k \<in> insert guest (granted readable table). \<not> prefix (elems k) (elems host)) \<longrightarrow>
           open_readable table' cwd (string_of_path host) = (False, string_of_path host)))"
proof -
  let ?guest = "make_normal cur (path_of_string first)" and ?host = "make_normal cur (path_of_string second)"
  let ?w = "case perms of None \<Rightarrow> False | Some (r, w) \<Rightarrow> w"
  let ?t = "ensure_path cur (path_of_string first) (path_of_string second) table True ?w False"
  have normal: "normal_abs ?guest" "normal_abs ?host"
    using assms(4) by (simp_all add: make_normal_string)
  have "add_volume cur (first @ '':'' @ second @ (case perms of None \<Rightarrow> [] | Some (r, w) \<Rightarrow>
      '':'' @ (if r then ''r'' else []) @ (if w then ''w'' else []))) table = Inr ?t"
    using assms(5) by (subst add_volume_parts [OF assms(1,2)]) auto
  moreover have "open_readable ?t cwd (string_of_path ?guest) = (True, string_of_path ?host)"
    by (rule open_readable_ensured [OF assms(3) normal])
  moreover have grants: "granted readable ?t = insert ?guest (granted readable table)"
    using granted_ensure_path(1) [OF assms(3) normal, of True] by simp
  moreover have "open_readable ?t cwd (string_of_path ?host) = (False, string_of_path ?host)"
    if "\<forall>k \<in> insert ?guest (granted readable table). \<not> prefix (elems k) (elems ?host)"
  proof (rule open_readable_refused)
    show "table_inv ?t" by (rule ensure_path_inv [OF assms(3) normal])
    show "normal_abs ?host" by (rule normal(2))
    show "\<forall>k \<in> granted readable ?t. \<not> prefix (elems k) (elems ?host)" unfolding grants by (rule that)
  qed
  ultimately show ?thesis unfolding Let_def by blast
qed

section \<open>Program lookup\<close>

lemma search_path_find:
  "search_path host program dirs =
     (case find (access_x host) (map (\<lambda>d. string_of_path (lexically_normal
         (path_append (path_of_string d) (path_of_string program)))) dirs) of
        Some f \<Rightarrow> Inr f | None \<Rightarrow> Inl (ValidationError ''program: Not found on path'' program))"
  by (induction dirs) (simp_all add: Let_def)

text \<open>
  A program given with a directory is looked up from the current directory only; the file name
  found is absolute, without \<open>.\<close> and \<open>..\<close>, names the same place as the argument, and is executable.
\<close>

lemma lookup_program_with_directory:
  assumes "CHR ''/'' \<in> set program" "normal_abs (current_path host)"
    and "lookup_program host program = Inr file"
  shows "access_x host file \<and>
    normal_dir (path_of_string file) = make_normal (current_path host) (path_of_string program)"
proof -
  let ?p = "path_of_string program"
  let ?a = "if is_relative ?p then path_append (current_path host) ?p else ?p"
  have "str_find program (CHR ''/'') 0 \<noteq> None"
    using assms(1) str_find_None [of program "CHR ''/''" 0] by auto
  then have found: "file = string_of_path (lexically_normal ?a)" "access_x host file"
    using assms(3) by (auto simp: lookup_program_def Let_def split: if_splits)
  have root: "has_root ?a" using assms(2) by (simp add: is_relative_def has_root_append normal_abs_def)
  have wf: "path_wf ?a"
    using assms(2) by (simp add: path_wf_append path_wf_path_of_string normal_abs_wf)
  obtain t where t: "lexically_normal ?a = Path True (resolve (names ?a) @ t)"
      "t = [] \<or> t = [[]] \<and> resolve (names ?a) \<noteq> []"
    by (rule lexically_normal_abs [OF root])
  have clean: "list_all clean_name (resolve (names ?a))"
    using wf by (intro resolve_clean) (auto simp: path_wf_def)
  have "path_wf (lexically_normal ?a)" unfolding t(1) by (rule path_wf_clean [OF clean t(2)])
  then have "normal_dir (path_of_string file) = normal_dir (lexically_normal ?a)"
    by (simp add: found(1) path_of_string_of_path)
  also have "\<dots> = Path True (resolve (names ?a))"
    using t clean by (auto simp: normal_dir_abs resolve_snoc_empty resolve_id)
  also have "\<dots> = make_normal (current_path host) ?p"
    using root by (simp add: make_normal_def normal_dir_abs)
  finally show ?thesis using found(2) by simp
qed

text \<open>
  A bare program name is looked up in the directories of \<open>PATH\<close> in order: the first executable
  candidate is the result, and the lookup fails exactly when there is none.
\<close>

lemma lookup_program_first_on_path:
  assumes "CHR ''/'' \<notin> set program" "PATH host = Some p"
  shows "lookup_program host program =
    (case find (access_x host) (map (\<lambda>d. string_of_path (lexically_normal
         (path_append (path_of_string d) (path_of_string program)))) (getlines p)) of
       Some file \<Rightarrow> Inr file | None \<Rightarrow> Inl (ValidationError ''program: Not found on path'' program))"
proof -
  have "takeWhile (\<lambda>c. c \<noteq> CHR ''/'') program = program"
    unfolding takeWhile_eq_all_conv using assms(1) by blast
  then have "str_find program (CHR ''/'') 0 = None" by (simp add: str_find_def del: takeWhile_eq_all_conv)
  with assms(2) show ?thesis by (simp add: lookup_program_def search_path_find)
qed

section \<open>The environment of the guest\<close>

text \<open>Which variables an \<open>--allow-env\<close> value names: a prefix before \<open>*\<close>, or one whole name.\<close>

definition env_matches :: "string \<Rightarrow> string \<Rightarrow> bool" where
  "env_matches name entry \<longleftrightarrow>
     (if last name = CHR ''*'' then prefix (butlast name) entry else prefix (name @ ''='') entry)"

lemma find_SomeD: "find P xs = Some x \<Longrightarrow> x \<in> set xs \<and> P x"
  by (induction xs) (auto split: if_splits)

lemma getenv_entry:
  assumes "getenv env name = Some v"
  shows "name @ ''='' @ v \<in> set env"
proof -
  from assms obtain e where e: "find (prefix (name @ ''='')) env = Some e" "v = drop (Suc (length name)) e"
    by (auto simp: getenv_def)
  then obtain u where u: "e = name @ ''='' @ u" using find_SomeD [OF e(1)] by (auto simp: prefix_def)
  then have "v = u" using e(2) by simp
  with u find_SomeD [OF e(1)] show ?thesis by simp
qed

lemma add_env_cases:
  assumes "add_env env name acc = Inr acc'"
  obtains new where "acc' = acc @ new" "\<And>x. x \<in> set new \<Longrightarrow> x \<in> set env \<and> env_matches name x"
    "last name = CHR ''*'' \<Longrightarrow> new = filter (env_matches name) env"
proof (cases "last name = CHR ''*''")
  case True
  then have "acc' = acc @ filter (prefix (butlast name)) env"
    using assms by (auto simp: add_env_def split: if_splits)
  moreover have "prefix (butlast name) = env_matches name"
    by (rule ext) (simp add: env_matches_def True)
  ultimately show thesis using that by auto
next
  case False
  then obtain v where v: "getenv env name = Some v" "acc' = acc @ [name @ ''='' @ v]"
    using assms by (auto simp: add_env_def split: if_splits option.splits)
  have "prefix (name @ ''='') (name @ ''='' @ v)" by simp
  then show thesis
    using that [of "[name @ ''='' @ v]"] v False getenv_entry [OF v(1)] by (auto simp: env_matches_def)
qed

lemma add_all_env:
  assumes "fold_result (add_env env) allowed acc = Inr acc'"
  shows "set acc \<subseteq> set acc' \<and>
    (\<forall>x \<in> set acc'. x \<in> set acc \<or> x \<in> set env \<and> (\<exists>name \<in> set allowed. env_matches name x)) \<and>
    (\<forall>name \<in> set allowed. last name = CHR ''*'' \<longrightarrow> set (filter (env_matches name) env) \<subseteq> set acc')"
  using assms
proof (induction allowed arbitrary: acc)
  case (Cons name allowed)
  then obtain mid where mid: "add_env env name acc = Inr mid" "fold_result (add_env env) allowed mid = Inr acc'"
    by (auto simp: then_do_Inr_iff)
  obtain new where new: "mid = acc @ new"
      "\<And>x. x \<in> set new \<Longrightarrow> x \<in> set env \<and> env_matches name x"
      "last name = CHR ''*'' \<Longrightarrow> new = filter (env_matches name) env"
    using add_env_cases [OF mid(1)] by metis
  note IH = Cons.IH [OF mid(2)]
  have "set acc \<subseteq> set acc'" using IH new(1) by auto
  moreover have "x \<in> set acc \<or> x \<in> set env \<and> (\<exists>n \<in> set (name # allowed). env_matches n x)"
    if "x \<in> set acc'" for x
    using IH that new(1,2) by auto
  moreover have "set (filter (env_matches n) env) \<subseteq> set acc'"
    if "n \<in> set (name # allowed)" "last n = CHR ''*''" for n
  proof (cases "n = name")
    case True
    then show ?thesis using IH new(1) new(3) that(2) by auto
  next
    case False
    then show ?thesis using IH that by simp
  qed
  ultimately show ?case by blast
qed simp

text \<open>
  A string of the environment the options give comes from \<open>--env\<close>, is the default user, or is a host
  variable that some \<open>--allow-env\<close> value allowed; the values given with \<open>--env\<close> and the host variables named
  by a wildcard are all in it, and it always has a user.
\<close>

lemma guest_environ_strings:
  assumes "guest_environ env allow_env environ = Inr result"
  shows "set environ \<subseteq> set result \<and>
    (\<forall>x \<in> set result. x \<in> set environ \<or> x = ''USER=nobody'' \<or>
       x \<in> set env \<and> (\<exists>name \<in> set allow_env. env_matches name x)) \<and>
    (\<forall>name \<in> set allow_env. last name = CHR ''*'' \<longrightarrow> set (filter (env_matches name) env) \<subseteq> set result) \<and>
    list_ex (prefix ''USER='') result"
proof -
  from assms obtain mid where mid: "fold_result (add_env env) allow_env environ = Inr mid"
      "result = default_user mid"
    by (auto simp: guest_environ_def then_do_Inr_iff)
  have "prefix ''USER='' ''USER=nobody''" by simp
  then show ?thesis
    using add_all_env [OF mid(1)] unfolding mid(2) default_user_def
    by (cases "list_ex (prefix ''USER='') mid") auto
qed

text \<open>
  C31: Building the environment is defined exactly when no \<open>--allow-env\<close> value is empty and every
  value without wildcard allowed a variable that is set on the host.
\<close>

theorem guest_environ_defined_iff:
  "(\<exists>result. guest_environ env allow_env environ = Inr result) \<longleftrightarrow>
   list_all (\<lambda>name. name \<noteq> [] \<and> (last name = CHR ''*'' \<or> (\<exists>v. getenv env name = Some v))) allow_env"
proof -
  have "(\<exists>result. fold_result (add_env env) allow_env environ = Inr result) \<longleftrightarrow>
      list_all (\<lambda>name. name \<noteq> [] \<and> (last name = CHR ''*'' \<or> (\<exists>v. getenv env name = Some v))) allow_env"
  proof (induction allow_env arbitrary: environ)
    case (Cons name allowed)
    show ?case
      using Cons.IH by (auto simp: add_env_def then_do_Inr_iff split: if_splits option.splits)
  qed simp
  then show ?thesis by (auto simp: guest_environ_def then_do_Inr_iff)
qed

section \<open>Witnesses\<close>

theorem remapping_reads_documented_form_witness:
  "parse_remapping (remapping_text (True, 4096) (False, 16) None (Some (True, False, True))) =
     Inr \<lparr>rm_phys = 0, rm_virt = 4096, rm_size = 16777216, rm_writable = False, rm_executable = True\<rparr> \<and>
   parse_remapping (remapping_text (False, 4096) (False, 16) None (Some (False, False, False))) =
     Inl (ValidationError ''invalid argument (phys)'' ''4096:16:'')"
proof -
  have "remapping_text (False, 4096) (False, 16) None (Some (False, False, False)) = ''4096:16:''"
    by (simp add: remapping_text_def number_text_def show_nat_def rwx_text_def show_base_small show_base_big
        digit_char_def)
  then show ?thesis
    using remapping_reads_documented_form [of "(True, 4096)" "(False, 16)" None "Some (True, False, True)"]
      remapping_reads_documented_form [of "(False, 4096)" "(False, 16)" None "Some (False, False, False)"]
    by simp
qed

theorem volume_takes_the_guest_path_first_witness:
  "\<exists>table. add_volume (Path True []) ''/srv/www:/data:rw'' [] = Inr table \<and>
     open_readable table ''/'' ''/srv/www'' = (True, ''/data'') \<and>
     open_readable table ''/'' ''/data'' = (False, ''/data'')"
proof -
  have paths: "make_normal (Path True []) (path_of_string ''/srv/www'') = Path True [''srv'', ''www'']"
    "make_normal (Path True []) (path_of_string ''/data'') = Path True [''data'']"
    "string_of_path (Path True [''srv'', ''www'']) = ''/srv/www''" "string_of_path (Path True [''data'']) = ''/data''"
    "\<not> prefix (elems (Path True [''srv'', ''www''])) (elems (Path True [''data'']))" "normal_abs (Path True [])"
    by code_simp+
  show ?thesis
    using volume_takes_the_guest_path_first [of "''/srv/www''" "''/data''" "[]" "Path True []"
        "Some (True, True)" True "''/''", OF _ _ table_inv_Nil paths(6)]
    by (simp add: paths Let_def) blast
qed

text \<open>A host with one executable in the second directory of its search path.\<close>

definition example_host :: host_files where
  "example_host =
     \<lparr>PATH = Some ''/usr/local/bin:/usr/bin:'', access_x = (\<lambda>f. f = ''/usr/bin/server''),
      current_path = Path True [''usr'', ''lib'']\<rparr>"

end
