(* ===== verification/Configuration.thy ===== *)
theory Configuration
  imports Options
begin

text \<open>
  The server's configuration (config.hpp) and how \<open>Configuration::FromArgs\<close> (config.cpp) builds it
  from parsed options.  The command line parser (CLI11) is outside the model: what it delivers is the
  record of option values below and the sequence of subcommands it parsed; its callbacks run for the
  subcommands in that order and for the application last.
\<close>

section \<open>Data\<close>

text \<open>A \<open>float\<close> is kept as its 32 bits: the configuration only stores it.\<close>

type_synonym f32 = u32

record Configuration =
  main_filename :: string
  storage_filename :: string
  snapshot_filename :: string
  concurrency :: u16
  warmup_connect_requests :: u16
  warmup_intra_connect_requests :: u16
  warmup_path :: string
  max_boot_time :: f32
  max_req_time :: f32
  max_address_space :: u64
  max_main_memory :: u64
  max_req_mem :: u32
  limit_req_mem :: u32
  shared_memory :: u32
  dylink_address_hint :: u64
  heap_address_hint :: u64
  storage_dylink_address_hint :: u64
  hugepage_arena_size :: u64
  hugepage_requests_arena :: u64
  storage :: bool
  storage_1_to_1 :: bool
  storage_ipre_permanent :: bool
  executable_heap :: bool
  mmap_backed_files :: bool
  hugepages :: bool
  split_hugepages :: bool
  transparent_hugepages :: bool
  ephemeral :: bool
  ephemeral_keep_working_memory :: bool
  verbose :: bool
  verbose_syscalls :: bool
  verbose_mmap_syscalls :: bool
  verbose_thread_syscalls :: bool
  verbose_pagetable :: bool
  environ :: "string list"
  main_arguments :: "string list"
  storage_arguments :: "string list"
  vmem_remappings :: "VirtualRemapping list"
  storage_remappings :: "VirtualRemapping list"
  allowed_paths :: "(fs_path \<times> VirtualPath) list"
  current_working_directory :: string
  allowed_connect_ipv4 :: "sockaddr_storage list"
  allowed_listen_ipv4 :: "sockaddr_storage list"
  allowed_connect_ipv6 :: "sockaddr_storage list"
  allowed_listen_ipv6 :: "sockaddr_storage list"

text \<open>The member initialisers; \<open>20.0f\<close> and \<open>8.0f\<close> as bits.\<close>

definition default_configuration :: Configuration where
  "default_configuration = \<lparr>
     main_filename = [], storage_filename = [], snapshot_filename = [],
     concurrency = 1, warmup_connect_requests = 0, warmup_intra_connect_requests = 1,
     warmup_path = ''/'', max_boot_time = 0x41A00000, max_req_time = 0x41000000,
     max_address_space = 120 * 1024, max_main_memory = 8 * 1024,
     max_req_mem = 128, limit_req_mem = 128, shared_memory = 0,
     dylink_address_hint = 2, heap_address_hint = 256, storage_dylink_address_hint = 0x2000200000,
     hugepage_arena_size = 0, hugepage_requests_arena = 0,
     storage = False, storage_1_to_1 = False, storage_ipre_permanent = False,
     executable_heap = True, mmap_backed_files = True, hugepages = False, split_hugepages = True,
     transparent_hugepages = False, ephemeral = False, ephemeral_keep_working_memory = True,
     verbose = False, verbose_syscalls = False, verbose_mmap_syscalls = False,
     verbose_thread_syscalls = False, verbose_pagetable = False,
     environ = [], main_arguments = [], storage_arguments = [],
     vmem_remappings = [], storage_remappings = [], allowed_paths = [],
     current_working_directory = [],
     allowed_connect_ipv4 = [], allowed_listen_ipv4 = [],
     allowed_connect_ipv6 = [], allowed_listen_ipv6 = []\<rparr>"

text \<open>
  What the parser delivers: the flag \<open>--allow-all\<close>, the permission vectors, the remapping values of
  the two subcommands, and the subcommands in the order they were given (\<open>Escape\<close> is \<open>++\<close>).  Options
  that only store into the configuration are already stored there.
\<close>

datatype subcommand = Escape | Run | Storage

record cli_values =
  allow_all :: bool
  allow_read :: "string list"
  allow_write :: "string list"
  volume :: "string list"
  allow_env :: "string list"
  allow_net :: "string list"
  allow_connect :: "string list"
  allow_listen :: "string list"
  run_remappings :: "string list"
  storage_vm_remappings :: "string list"
  subcommands :: "subcommand list"

text \<open>
  The host the callbacks run on: its files and environment, the name services, the number of
  processors, the names \<open>tmpnam\<close> returns call by call, whether \<open>fopen\<close> can create a file, and the guest
  library linked into the server.
\<close>

record host =
  files :: host_files
  host_environ :: "string list"
  services :: name_services
  hardware_concurrency :: u32
  tmpnam :: "nat \<Rightarrow> string"
  fopen_w :: "string \<Rightarrow> bool"
  libkvmserverguest_so :: string

section \<open>Callbacks\<close>

text \<open>The handler of \<open>--allow-all\<close>.\<close>

definition apply_allow_all :: "cli_values \<Rightarrow> cli_values" where
  "apply_allow_all cli =
     (if allow_all cli then
        cli\<lparr>allow_read := allow_read cli @ [''/''], allow_write := allow_write cli @ [''/''],
            allow_env := allow_env cli @ [''*''], allow_net := allow_net cli @ [''true'']\<rparr>
      else cli)"

text \<open>The one-argument constructor of \<open>CLI::ValidationError\<close> uses the name of the class.\<close>

definition run_callback :: "host \<Rightarrow> cli_values \<Rightarrow> Configuration \<Rightarrow> config_error + Configuration" where
  "run_callback h cli config =
     (if 1 < count_list (subcommands cli) Run then
        Inl (ValidationError ''ValidationError'' ''run subcommand may only be called once'')
      else then_do (lookup_program (files h) (main_filename config))
             (\<lambda>f. Inr (config\<lparr>main_filename := f\<rparr>)))"

definition storage_callback :: "host \<Rightarrow> cli_values \<Rightarrow> Configuration \<Rightarrow> config_error + Configuration" where
  "storage_callback h cli config =
     (if 1 < count_list (subcommands cli) Storage then
        Inl (ValidationError ''ValidationError'' ''storage subcommand may only be used once'')
      else then_do (lookup_program (files h) (storage_filename config))
             (\<lambda>f. Inr (config\<lparr>storage := True, storage_filename := f\<rparr>)))"

text \<open>
  A temporary file with the given content, and the table that maps the guest path to it.  The result
  carries the file written.
\<close>

definition fake_path ::
  "host \<Rightarrow> nat \<Rightarrow> string \<Rightarrow> string \<Rightarrow> allowed_paths \<Rightarrow> config_error + ((string \<times> string) \<times> allowed_paths)" where
  "fake_path h call path content table =
     (let dst = tmpnam h call
      in if \<not> fopen_w h dst then Inl (ValidationError ''fopen: Unable to create temporary file'' [])
         else Inr ((dst, content),
                   ensure_path (current_path (files h)) (path_of_string path) (path_of_string dst) table
                     True False False))"

text \<open>The part of the application callback that fills the table of allowed paths.\<close>

definition proc_self_maps :: "string \<Rightarrow> string" where
  "proc_self_maps main =
     ''000000000000-ffffffffffff r--p 00000000 103:02 48895346                  '' @ main @ [CHR 0x0A]"

definition option_paths :: "fs_path \<Rightarrow> cli_values \<Rightarrow> allowed_paths \<Rightarrow> allowed_paths" where
  "option_paths cur cli table =
     (let add = (\<lambda>src dst r w s table. ensure_path cur (path_of_string src) (path_of_string dst) table r w s);
          table = foldl (\<lambda>table path. add path path True False False table) table (allow_read cli);
          table = foldl (\<lambda>table path. add path path False True False table) table (allow_write cli);
          table = add ''/dev/urandom'' ''/dev/urandom'' True False True table;
          table = add ''/dev/null'' ''/dev/null'' True True True table
      in add ''/dev/zero'' ''/dev/zero'' True True True table)"

definition program_paths :: "fs_path \<Rightarrow> string \<Rightarrow> allowed_paths \<Rightarrow> allowed_paths" where
  "program_paths cur main table =
     (let table = ensure_path cur (path_of_string ''/proc/self/exe'') (path_of_string main) table False False True
      in ensure_path cur (path_of_string main) (path_of_string main) table True False False)"

definition fill_allowed_paths ::
  "host \<Rightarrow> cli_values \<Rightarrow> string \<Rightarrow> allowed_paths \<Rightarrow> config_error + ((string \<times> string) list \<times> allowed_paths)" where
  "fill_allowed_paths h cli main table =
     then_do (fake_path h 0 ''/proc/self/maps'' (proc_self_maps main)
                (option_paths (current_path (files h)) cli table)) (\<lambda>(maps, table).
     then_do (fake_path h 1 ''/lib/libkvmserverguest.so'' (libkvmserverguest_so h) table) (\<lambda>(lib, table).
     then_do (fold_result (add_volume (current_path (files h))) (volume cli) table) (\<lambda>table.
     Inr ([maps, lib], program_paths (current_path (files h)) main table))))"

text \<open>The network options: \<open>--allow-net\<close> for both directions, then the two others.\<close>

definition fill_networks :: "name_services \<Rightarrow> cli_values \<Rightarrow> Configuration \<Rightarrow> config_error + Configuration" where
  "fill_networks net cli config =
     then_do (parse_addresses net (allow_net cli) (allowed_connect_ipv4 config, allowed_connect_ipv6 config))
       (\<lambda>(skip_allow_connect_listen, connect4, connect6).
         let config = config\<lparr>allowed_connect_ipv4 := connect4, allowed_connect_ipv6 := connect6,
                             allowed_listen_ipv4 := connect4, allowed_listen_ipv6 := connect6\<rparr>
         in if skip_allow_connect_listen then Inr config
            else
              then_do (parse_addresses net (allow_connect cli) (connect4, connect6)) (\<lambda>(_, connect4, connect6).
              then_do (parse_addresses net (allow_listen cli)
                         (allowed_listen_ipv4 config, allowed_listen_ipv6 config)) (\<lambda>(_, listen4, listen6).
              Inr (config\<lparr>allowed_connect_ipv4 := connect4, allowed_connect_ipv6 := connect6,
                          allowed_listen_ipv4 := listen4, allowed_listen_ipv6 := listen6\<rparr>))))"

text \<open>
  The memory sizes, from megabytes to bytes.  The products are computed in 64 bits and stored back in
  the width of the member.
\<close>

definition scale_memory :: "Configuration \<Rightarrow> Configuration" where
  "scale_memory config =
     (let config = config\<lparr>max_address_space := max (max_address_space config) (max_main_memory config)\<rparr>
      in config\<lparr>
           max_address_space := max_address_space config * 2 ^ 20,
           max_main_memory := max_main_memory config * 2 ^ 20,
           max_req_mem := ucast ((ucast (max_req_mem config) :: u64) * 2 ^ 20),
           limit_req_mem := ucast ((ucast (limit_req_mem config) :: u64) * 2 ^ 20),
           shared_memory := ucast ((ucast (shared_memory config) :: u64) * 2 ^ 20),
           dylink_address_hint := dylink_address_hint config * 2 ^ 20,
           heap_address_hint := heap_address_hint config * 2 ^ 20\<rparr>)"

text \<open>The application callback; the first component of the result is the temporary files written.\<close>

definition app_callback ::
  "host \<Rightarrow> cli_values \<Rightarrow> Configuration \<Rightarrow> config_error + ((string \<times> string) list \<times> Configuration)" where
  "app_callback h cli config =
     (if filter (\<lambda>sub. sub \<noteq> Escape) (subcommands cli) = [] then
        Inl (ValidationError ''ValidationError'' ''A subcommand is required'')
      else
        let config = (if concurrency config = 0 then config\<lparr>concurrency := ucast (hardware_concurrency h)\<rparr>
                      else config)
        in then_do (fill_allowed_paths h cli (main_filename config) (allowed_paths config)) (\<lambda>(written, table).
           then_do (guest_environ (host_environ h) (allow_env cli) (environ config)) (\<lambda>env.
           then_do (fill_networks (services h) cli (config\<lparr>allowed_paths := table, environ := env\<rparr>)) (\<lambda>config.
           Inr (written, scale_memory config)))))"

text \<open>
  \<open>FromArgs\<close> after parsing: option handlers first, then the callbacks of the subcommands in the order
  they were given (a subcommand given twice runs its callback once, where the count is checked), then
  the callback of the application.
\<close>

fun subcommand_callback :: "host \<Rightarrow> cli_values \<Rightarrow> subcommand \<Rightarrow> Configuration \<Rightarrow> config_error + Configuration" where
  "subcommand_callback h cli Escape config = Inr config"
| "subcommand_callback h cli Run config = run_callback h cli config"
| "subcommand_callback h cli Storage config = storage_callback h cli config"

definition from_args ::
  "host \<Rightarrow> cli_values \<Rightarrow> Configuration \<Rightarrow> config_error + ((string \<times> string) list \<times> Configuration)" where
  "from_args h cli config =
     (let cli = apply_allow_all cli
      in then_do (fold_result add_remapping (run_remappings cli) (vmem_remappings config)) (\<lambda>vmem.
         then_do (fold_result add_remapping (storage_vm_remappings cli) (storage_remappings config)) (\<lambda>smem.
         then_do (fold_result (subcommand_callback h cli) (remdups (subcommands cli))
                    (config\<lparr>vmem_remappings := vmem, storage_remappings := smem\<rparr>)) (\<lambda>config.
         app_callback h cli config))))"

section \<open>The table of allowed paths\<close>

abbreviation guest_path :: "fs_path \<Rightarrow> string \<Rightarrow> fs_path" where
  "guest_path cur p \<equiv> make_normal cur (path_of_string p)"

lemmas guest_path_normal = make_normal_string

lemma ensure_string_path:
  assumes "table_inv table" "normal_abs cur"
  shows "table_inv (ensure_path cur (path_of_string src) (path_of_string dst) table r w s)"
    and "granted readable (ensure_path cur (path_of_string src) (path_of_string dst) table r w s) =
      granted readable table \<union> (if r then {guest_path cur src} else {})"
    and "granted writable (ensure_path cur (path_of_string src) (path_of_string dst) table r w s) =
      granted writable table \<union> (if w then {guest_path cur src} else {})"
  using ensure_path_inv granted_ensure_path guest_path_normal assms by auto

lemma ensure_string_paths:
  assumes "table_inv table" "normal_abs cur"
  shows "table_inv (foldl (\<lambda>t p. ensure_path cur (path_of_string p) (path_of_string p) t r w s) table ps) \<and>
    granted readable (foldl (\<lambda>t p. ensure_path cur (path_of_string p) (path_of_string p) t r w s) table ps) =
      granted readable table \<union> (if r then guest_path cur ` set ps else {}) \<and>
    granted writable (foldl (\<lambda>t p. ensure_path cur (path_of_string p) (path_of_string p) t r w s) table ps) =
      granted writable table \<union> (if w then guest_path cur ` set ps else {})"
  using assms(1)
proof (induction ps arbitrary: table)
  case (Cons p ps)
  note step = ensure_string_path [OF Cons.prems assms(2), of p p r w s]
  show ?case using Cons.IH [OF step(1)] step(2,3) by auto
qed simp

text \<open>What the options grant.  The permission letters of a volume are its third part.\<close>

definition volume_grants :: "char \<Rightarrow> string \<Rightarrow> bool" where
  "volume_grants c triple =
     (let parts = split triple (CHR '':'')
      in if length parts = 2 then c = CHR ''r'' else 2 < length parts \<and> c \<in> set (parts ! 2))"

definition volume_paths :: "char \<Rightarrow> fs_path \<Rightarrow> string list \<Rightarrow> fs_path set" where
  "volume_paths c cur volumes =
     (\<lambda>triple. guest_path cur (hd (split triple (CHR '':'')))) ` set (filter (volume_grants c) volumes)"

definition readable_paths :: "fs_path \<Rightarrow> cli_values \<Rightarrow> string \<Rightarrow> fs_path set" where
  "readable_paths cur cli main =
     guest_path cur ` set (allow_read cli @ [''/dev/urandom'', ''/dev/null'', ''/dev/zero'',
       ''/proc/self/maps'', ''/lib/libkvmserverguest.so'', main]) \<union> volume_paths (CHR ''r'') cur (volume cli)"

definition writable_paths :: "fs_path \<Rightarrow> cli_values \<Rightarrow> fs_path set" where
  "writable_paths cur cli =
     guest_path cur ` set (allow_write cli @ [''/dev/null'', ''/dev/zero'']) \<union>
     volume_paths (CHR ''w'') cur (volume cli)"

lemma perms_letters:
  assumes "(let i = 0; r = char_at perms i (CHR ''r''); i = (if r then Suc i else i);
      w = char_at perms i (CHR ''w''); i = (if w then Suc i else i) in i) = length perms"
  shows "char_at perms 0 (CHR ''r'') \<longleftrightarrow> CHR ''r'' \<in> set perms"
    and "char_at perms (if char_at perms 0 (CHR ''r'') then 1 else 0) (CHR ''w'') \<longleftrightarrow> CHR ''w'' \<in> set perms"
  using assms
  by (cases perms; cases "tl perms"; cases "tl (tl perms)";
      auto simp: char_at_def Let_def split: if_splits)+

lemma add_volume_grants:
  assumes "table_inv table" "normal_abs cur" "add_volume cur triple table = Inr table'"
  shows "table_inv table' \<and>
    granted readable table' = granted readable table \<union> volume_paths (CHR ''r'') cur [triple] \<and>
    granted writable table' = granted writable table \<union> volume_paths (CHR ''w'') cur [triple]"
proof -
  note ensure = ensure_string_path [OF assms(1,2)]
  obtain src dst rest where parts: "split triple (CHR '':'') = src # dst # rest"
    using assms(3) by (auto simp: add_volume_def split: list.splits)
  show ?thesis
  proof (cases rest)
    case Nil
    then show ?thesis
      using assms(3) parts ensure
      by (auto simp: add_volume_def volume_paths_def volume_grants_def)
  next
    case (Cons perms more)
    define r w where rw: "r = char_at perms 0 (CHR ''r'')"
      "w = char_at perms (if char_at perms 0 (CHR ''r'') then 1 else 0) (CHR ''w'')"
    have len: "(let i = 0; r = char_at perms i (CHR ''r''); i = (if r then Suc i else i);
        w = char_at perms i (CHR ''w''); i = (if w then Suc i else i) in i) = length perms"
      and t: "table' = ensure_path cur (path_of_string src) (path_of_string dst) table r w False"
      using assms(3) parts Cons by (auto simp: add_volume_def Let_def rw split: if_splits)
    have "r \<longleftrightarrow> CHR ''r'' \<in> set perms" "w \<longleftrightarrow> CHR ''w'' \<in> set perms"
      using perms_letters [OF len] by (simp_all only: rw)
    then show ?thesis
      unfolding t ensure(2,3) using ensure(1) parts Cons
      by (auto simp: volume_paths_def volume_grants_def)
  qed
qed

lemma add_volumes_grants:
  assumes "table_inv table" "normal_abs cur" "fold_result (add_volume cur) volumes table = Inr table'"
  shows "table_inv table' \<and>
    granted readable table' = granted readable table \<union> volume_paths (CHR ''r'') cur volumes \<and>
    granted writable table' = granted writable table \<union> volume_paths (CHR ''w'') cur volumes"
  using assms(1,3)
proof (induction volumes arbitrary: table)
  case Nil
  then show ?case by (simp add: volume_paths_def)
next
  case (Cons triple volumes)
  then obtain mid where mid: "add_volume cur triple table = Inr mid"
      "fold_result (add_volume cur) volumes mid = Inr table'"
    by (auto simp: then_do_Inr_iff)
  note step = add_volume_grants [OF Cons.prems(1) assms(2) mid(1)]
  have "volume_paths c cur (triple # volumes) = volume_paths c cur [triple] \<union> volume_paths c cur volumes" for c
    by (auto simp: volume_paths_def)
  then show ?case using Cons.IH [OF _ mid(2)] step by auto
qed

lemma option_paths_grants:
  assumes "table_inv table" "normal_abs cur"
  shows "table_inv (option_paths cur cli table)"
    and "granted readable (option_paths cur cli table) = granted readable table \<union>
      guest_path cur ` set (allow_read cli @ [''/dev/urandom'', ''/dev/null'', ''/dev/zero''])"
    and "granted writable (option_paths cur cli table) = granted writable table \<union>
      guest_path cur ` set (allow_write cli @ [''/dev/null'', ''/dev/zero''])"
proof -
  let ?add = "\<lambda>r w s t ps. foldl (\<lambda>t p. ensure_path cur (path_of_string p) (path_of_string p) t r w s) t ps"
  let ?t1 = "?add True False False table (allow_read cli)"
  let ?t2 = "?add False True False ?t1 (allow_write cli)"
  let ?t3 = "?add True False True ?t2 [''/dev/urandom'']"
  let ?t4 = "?add True True True ?t3 [''/dev/null'', ''/dev/zero'']"
  have eq: "option_paths cur cli table = ?t4" by (simp add: option_paths_def Let_def)
  note t1 = ensure_string_paths [OF assms, of True False False "allow_read cli"]
  note t2 = ensure_string_paths [OF conjunct1 [OF t1] assms(2), of False True False "allow_write cli"]
  note t3 = ensure_string_paths [OF conjunct1 [OF t2] assms(2), of True False True "[''/dev/urandom'']"]
  note t4 = ensure_string_paths [OF conjunct1 [OF t3] assms(2), of True True True "[''/dev/null'', ''/dev/zero'']"]
  show "table_inv (option_paths cur cli table)" unfolding eq using t4 by blast
  have r: "granted readable ?t4 = granted readable ?t3 \<union> guest_path cur ` set [''/dev/null'', ''/dev/zero'']"
      "granted readable ?t3 = granted readable ?t2 \<union> guest_path cur ` set [''/dev/urandom'']"
      "granted readable ?t2 = granted readable ?t1"
      "granted readable ?t1 = granted readable table \<union> guest_path cur ` set (allow_read cli)"
    using t1 t2 t3 t4 by (simp_all only: if_True if_False Un_empty_right)
  show "granted readable (option_paths cur cli table) = granted readable table \<union>
      guest_path cur ` set (allow_read cli @ [''/dev/urandom'', ''/dev/null'', ''/dev/zero''])"
    unfolding eq r by (auto simp del: foldl_Cons foldl_Nil)
  have w: "granted writable ?t4 = granted writable ?t3 \<union> guest_path cur ` set [''/dev/null'', ''/dev/zero'']"
      "granted writable ?t3 = granted writable ?t2"
      "granted writable ?t2 = granted writable ?t1 \<union> guest_path cur ` set (allow_write cli)"
      "granted writable ?t1 = granted writable table"
    using t1 t2 t3 t4 by (simp_all only: if_True if_False Un_empty_right)
  show "granted writable (option_paths cur cli table) = granted writable table \<union>
      guest_path cur ` set (allow_write cli @ [''/dev/null'', ''/dev/zero''])"
    unfolding eq w by (auto simp del: foldl_Cons foldl_Nil)
qed

lemma fake_path_grants:
  assumes "table_inv table" "normal_abs (current_path (files h))"
    and "fake_path h call path content table = Inr (f, table')"
  shows "table_inv table'"
    and "granted readable table' = granted readable table \<union> {guest_path (current_path (files h)) path}"
    and "granted writable table' = granted writable table"
  using assms(3) ensure_string_path [OF assms(1,2)] by (auto simp: fake_path_def Let_def split: if_splits)

lemma program_paths_grants:
  assumes "table_inv table" "normal_abs cur"
  shows "table_inv (program_paths cur main table)"
    and "granted readable (program_paths cur main table) = granted readable table \<union> {guest_path cur main}"
    and "granted writable (program_paths cur main table) = granted writable table"
  unfolding program_paths_def Let_def
  using ensure_string_path [OF ensure_string_path(1) [OF assms] assms(2)] ensure_string_path [OF assms]
  by simp_all

lemma fill_allowed_paths_grants:
  assumes "normal_abs (current_path (files h))" "fill_allowed_paths h cli main [] = Inr (written, table)"
  shows "table_inv table"
    and "granted readable table = readable_paths (current_path (files h)) cli main"
    and "granted writable table = writable_paths (current_path (files h)) cli"
proof -
  let ?cur = "current_path (files h)"
  from assms(2) obtain f1 t1 f2 t2 t3 where
      t1: "fake_path h 0 ''/proc/self/maps'' (proc_self_maps main) (option_paths ?cur cli []) = Inr (f1, t1)"
    and t2: "fake_path h 1 ''/lib/libkvmserverguest.so'' (libkvmserverguest_so h) t1 = Inr (f2, t2)"
    and t3: "fold_result (add_volume ?cur) (volume cli) t2 = Inr t3"
    and t: "table = program_paths ?cur main t3"
    by (auto simp: fill_allowed_paths_def then_do_Inr_iff)
  note o = option_paths_grants [OF table_inv_Nil assms(1), of cli]
  note g1 = fake_path_grants [OF o(1) assms(1) t1]
  note g2 = fake_path_grants [OF g1(1) assms(1) t2]
  note g3 = add_volumes_grants [OF g2(1) assms(1) t3]
  note g4 = program_paths_grants [OF conjunct1 [OF g3] assms(1), of main]
  show "table_inv table" unfolding t by (rule g4(1))
  have "granted readable table = (((granted readable [] \<union> guest_path ?cur ` set (allow_read cli @
      [''/dev/urandom'', ''/dev/null'', ''/dev/zero''])) \<union> {guest_path ?cur ''/proc/self/maps''}) \<union>
      {guest_path ?cur ''/lib/libkvmserverguest.so''}) \<union> volume_paths (CHR ''r'') ?cur (volume cli) \<union>
      {guest_path ?cur main}"
    unfolding t g4(2) using g3 by (simp only: g2(2) g1(2) o(2))
  also have "\<dots> = readable_paths ?cur cli main" by (auto simp: readable_paths_def)
  finally show "granted readable table = readable_paths ?cur cli main" .
  have "granted writable table = granted writable [] \<union> guest_path ?cur ` set (allow_write cli @
      [''/dev/null'', ''/dev/zero'']) \<union> volume_paths (CHR ''w'') ?cur (volume cli)"
    unfolding t g4(3) using g3 by (simp only: g2(3) g1(3) o(3))
  then show "granted writable table = writable_paths ?cur cli" by (simp add: writable_paths_def)
qed

section \<open>The whole of \<open>FromArgs\<close>\<close>

lemma lookup_program_executable:
  assumes "lookup_program hf program = Inr f"
  shows "access_x hf f"
proof -
  have "search_path hf program dirs = Inr f \<Longrightarrow> access_x hf f" for dirs
    by (induction dirs) (auto simp: Let_def split: if_splits)
  then show ?thesis
    using assms by (auto simp: lookup_program_def Let_def split: if_splits option.splits)
qed

text \<open>A subcommand callback changes the program names and the storage flag only.\<close>

lemma subcommand_callback_frame:
  assumes "subcommand_callback h cli sub config = Inr config'"
  shows "\<exists>m s f. config' = config\<lparr>main_filename := m, storage := s, storage_filename := f\<rparr>"
proof (cases sub)
  case Escape
  have "config = config\<lparr>main_filename := main_filename config, storage := storage config,
      storage_filename := storage_filename config\<rparr>" by simp
  with Escape assms show ?thesis by (metis Inr_inject subcommand_callback.simps(1))
next
  case Run
  with assms obtain m where "config' = config\<lparr>main_filename := m\<rparr>"
    by (auto simp: run_callback_def then_do_Inr_iff split: if_splits)
  then have "config' = config\<lparr>main_filename := m, storage := storage config,
      storage_filename := storage_filename config\<rparr>" by simp
  then show ?thesis by blast
next
  case Storage
  with assms obtain f where "config' = config\<lparr>storage := True, storage_filename := f\<rparr>"
    by (auto simp: storage_callback_def then_do_Inr_iff split: if_splits)
  then have "config' = config\<lparr>main_filename := main_filename config, storage := True,
      storage_filename := f\<rparr>" by simp
  then show ?thesis by blast
qed

lemma subcommand_callbacks_frame:
  assumes "fold_result (subcommand_callback h cli) subs config = Inr config'"
  shows "\<exists>m s f. config' = config\<lparr>main_filename := m, storage := s, storage_filename := f\<rparr>"
  using assms
proof (rule fold_result_invariant)
  show "\<exists>m s f. config = config\<lparr>main_filename := m, storage := s, storage_filename := f\<rparr>"
    by (intro exI [of _ "main_filename config"] exI [of _ "storage config"]
        exI [of _ "storage_filename config"]) simp
next
  fix x c c'
  assume "\<exists>m s f. c = config\<lparr>main_filename := m, storage := s, storage_filename := f\<rparr>"
    and "subcommand_callback h cli x c = Inr c'"
  then show "\<exists>m s f. c' = config\<lparr>main_filename := m, storage := s, storage_filename := f\<rparr>"
    using subcommand_callback_frame [of h cli x c c'] by force
qed

lemma fill_networks_cases:
  assumes "fill_networks net cli config = Inr config'"
  obtains (all) a b where
      "parse_addresses net (allow_net cli) (allowed_connect_ipv4 config, allowed_connect_ipv6 config) = Inr (True, a, b)"
      "config' = config\<lparr>allowed_connect_ipv4 := a, allowed_connect_ipv6 := b,
         allowed_listen_ipv4 := a, allowed_listen_ipv6 := b\<rparr>"
    | (each) a b s1 c4 c6 s2 l4 l6 where
      "parse_addresses net (allow_net cli) (allowed_connect_ipv4 config, allowed_connect_ipv6 config) = Inr (False, a, b)"
      "parse_addresses net (allow_connect cli) (a, b) = Inr (s1, c4, c6)"
      "parse_addresses net (allow_listen cli) (a, b) = Inr (s2, l4, l6)"
      "config' = config\<lparr>allowed_connect_ipv4 := c4, allowed_connect_ipv6 := c6,
         allowed_listen_ipv4 := l4, allowed_listen_ipv6 := l6\<rparr>"
proof -
  obtain skip a b where p: "parse_addresses net (allow_net cli)
      (allowed_connect_ipv4 config, allowed_connect_ipv6 config) = Inr (skip, a, b)"
    using assms by (auto simp: fill_networks_def then_do_Inr_iff)
  show thesis
  proof (cases skip)
    case True
    with assms p show thesis by (intro all) (auto simp: fill_networks_def)
  next
    case False
    with assms p obtain s1 c4 c6 s2 l4 l6 where "parse_addresses net (allow_connect cli) (a, b) = Inr (s1, c4, c6)"
        "parse_addresses net (allow_listen cli) (a, b) = Inr (s2, l4, l6)"
        "config' = config\<lparr>allowed_connect_ipv4 := c4, allowed_connect_ipv6 := c6,
           allowed_listen_ipv4 := l4, allowed_listen_ipv6 := l6\<rparr>"
      by (auto simp: fill_networks_def then_do_Inr_iff)
    with False p show thesis by (intro each) auto
  qed
qed

text \<open>
  The steps of a successful run of \<open>FromArgs\<close>: the configuration is the one given, with the results of
  each group of options stored and the memory sizes scaled.
\<close>

lemma from_args_steps:
  assumes "from_args h cli config = Inr (written, c)"
  obtains vmem smem m s f table env n where
    "filter (\<lambda>sub. sub \<noteq> Escape) (subcommands cli) \<noteq> []"
    "fold_result (subcommand_callback h (apply_allow_all cli)) (remdups (subcommands cli))
       (config\<lparr>vmem_remappings := vmem, storage_remappings := smem\<rparr>) =
     Inr (config\<lparr>vmem_remappings := vmem, storage_remappings := smem,
            main_filename := m, storage := s, storage_filename := f\<rparr>)"
    "fill_allowed_paths h (apply_allow_all cli) m (allowed_paths config) = Inr (written, table)"
    "guest_environ (host_environ h) (allow_env (apply_allow_all cli)) (environ config) = Inr env"
    "fill_networks (services h) (apply_allow_all cli) (config\<lparr>vmem_remappings := vmem,
       storage_remappings := smem, main_filename := m, storage := s, storage_filename := f,
       concurrency := (if concurrency config = 0 then ucast (hardware_concurrency h) else concurrency config),
       allowed_paths := table, environ := env\<rparr>) = Inr n"
    "c = scale_memory n"
proof -
  have subs: "subcommands (apply_allow_all cli) = subcommands cli" by (simp add: apply_allow_all_def)
  from assms obtain vmem smem c1 where
      c1: "fold_result (subcommand_callback h (apply_allow_all cli)) (remdups (subcommands cli))
        (config\<lparr>vmem_remappings := vmem, storage_remappings := smem\<rparr>) = Inr c1"
    and app: "app_callback h (apply_allow_all cli) c1 = Inr (written, c)"
    by (auto simp: from_args_def Let_def then_do_Inr_iff subs)
  from subcommand_callbacks_frame [OF c1] obtain m s f where
    eq: "c1 = config\<lparr>vmem_remappings := vmem, storage_remappings := smem,
      main_filename := m, storage := s, storage_filename := f\<rparr>" by auto
  let ?c2 = "if concurrency c1 = 0 then c1\<lparr>concurrency := ucast (hardware_concurrency h)\<rparr> else c1"
  from app obtain table env n where
      "filter (\<lambda>sub. sub \<noteq> Escape) (subcommands cli) \<noteq> []"
      "fill_allowed_paths h (apply_allow_all cli) (main_filename ?c2) (allowed_paths ?c2) = Inr (written, table)"
      "guest_environ (host_environ h) (allow_env (apply_allow_all cli)) (environ ?c2) = Inr env"
      "fill_networks (services h) (apply_allow_all cli) (?c2\<lparr>allowed_paths := table, environ := env\<rparr>) = Inr n"
      "c = scale_memory n"
    by (auto simp: app_callback_def Let_def then_do_Inr_iff subs split: if_splits)
  moreover have "?c2\<lparr>allowed_paths := table, environ := env\<rparr> = config\<lparr>vmem_remappings := vmem,
       storage_remappings := smem, main_filename := m, storage := s, storage_filename := f,
       concurrency := (if concurrency config = 0 then ucast (hardware_concurrency h) else concurrency config),
       allowed_paths := table, environ := env\<rparr>" for table env
    by (simp add: eq)
  ultimately show thesis using c1 that by (simp add: eq split: if_splits)
qed

lemma from_args_fields:
  assumes "from_args h cli config = Inr (written, c)"
  shows "fill_allowed_paths h (apply_allow_all cli) (main_filename c) (allowed_paths config) =
      Inr (written, allowed_paths c)"
    and "guest_environ (host_environ h) (allow_env (apply_allow_all cli)) (environ config) = Inr (environ c)"
    and "concurrency c = (if concurrency config = 0 then ucast (hardware_concurrency h) else concurrency config)"
    and "max_address_space c = max_address_space (scale_memory config)"
    and "max_main_memory c = max_main_memory (scale_memory config)"
    and "max_req_mem c = max_req_mem (scale_memory config)"
    and "limit_req_mem c = limit_req_mem (scale_memory config)"
    and "shared_memory c = shared_memory (scale_memory config)"
proof -
  obtain vmem smem m s f table env n where *:
    "fill_allowed_paths h (apply_allow_all cli) m (allowed_paths config) = Inr (written, table)"
    "guest_environ (host_environ h) (allow_env (apply_allow_all cli)) (environ config) = Inr env"
    "fill_networks (services h) (apply_allow_all cli) (config\<lparr>vmem_remappings := vmem,
       storage_remappings := smem, main_filename := m, storage := s, storage_filename := f,
       concurrency := (if concurrency config = 0 then ucast (hardware_concurrency h) else concurrency config),
       allowed_paths := table, environ := env\<rparr>) = Inr n"
    "c = scale_memory n"
    using from_args_steps [OF assms] by metis
  from *(3) obtain a b d e where n: "n = config\<lparr>vmem_remappings := vmem,
       storage_remappings := smem, main_filename := m, storage := s, storage_filename := f,
       concurrency := (if concurrency config = 0 then ucast (hardware_concurrency h) else concurrency config),
       allowed_paths := table, environ := env, allowed_connect_ipv4 := a, allowed_connect_ipv6 := b,
       allowed_listen_ipv4 := d, allowed_listen_ipv6 := e\<rparr>"
    by (rule fill_networks_cases) auto
  show "fill_allowed_paths h (apply_allow_all cli) (main_filename c) (allowed_paths config) =
      Inr (written, allowed_paths c)"
    "guest_environ (host_environ h) (allow_env (apply_allow_all cli)) (environ config) = Inr (environ c)"
    "concurrency c = (if concurrency config = 0 then ucast (hardware_concurrency h) else concurrency config)"
    "max_address_space c = max_address_space (scale_memory config)"
    "max_main_memory c = max_main_memory (scale_memory config)"
    "max_req_mem c = max_req_mem (scale_memory config)"
    "limit_req_mem c = limit_req_mem (scale_memory config)"
    "shared_memory c = shared_memory (scale_memory config)"
    using *(1,2) by (simp_all add: *(4) n scale_memory_def Let_def)
qed

text \<open>
  A path can be read if and only if it lies at or below a path given with \<open>--allow-read\<close>, a volume with
  permission \<open>r\<close>, the three device files, the two files the server provides or the program itself; and
  written if and only if it lies at or below a path given with \<open>--allow-write\<close>, a volume with permission
  \<open>w\<close>, \<open>/dev/null\<close> or \<open>/dev/zero\<close>.
\<close>

lemma configured_files:
  assumes "from_args h cli config = Inr (written, c)" "allowed_paths config = []"
    and "normal_abs (current_path (files h))"
    and "has_root (path_of_string cwd) \<or> has_root (path_of_string path)"
  shows "fst (open_readable (allowed_paths c) cwd path) \<longleftrightarrow>
      (\<exists>k \<in> readable_paths (current_path (files h)) (apply_allow_all cli) (main_filename c).
         prefix (elems k) (elems (requested_path cwd path)))"
    and "fst (open_writable (allowed_paths c) cwd path) \<longleftrightarrow>
      (\<exists>k \<in> writable_paths (current_path (files h)) (apply_allow_all cli).
         prefix (elems k) (elems (requested_path cwd path)))"
proof -
  have "fill_allowed_paths h (apply_allow_all cli) (main_filename c) [] = Inr (written, allowed_paths c)"
    using from_args_fields(1) [OF assms(1)] assms(2) by simp
  note g = fill_allowed_paths_grants [OF assms(3) this]
  show "fst (open_readable (allowed_paths c) cwd path) \<longleftrightarrow>
      (\<exists>k \<in> readable_paths (current_path (files h)) (apply_allow_all cli) (main_filename c).
         prefix (elems k) (elems (requested_path cwd path)))"
    "fst (open_writable (allowed_paths c) cwd path) \<longleftrightarrow>
      (\<exists>k \<in> writable_paths (current_path (files h)) (apply_allow_all cli).
         prefix (elems k) (elems (requested_path cwd path)))"
    unfolding open_readable_def open_writable_def lookup_granted_iff [OF g(1) assms(4)] g(2,3) by simp_all
qed

text \<open>
  The program can always be opened for reading by its own name, whatever the volumes remap, and
  the open goes to the program's file.
\<close>

lemma program_is_readable_by_its_name:
  assumes "from_args h cli config = Inr (written, c)" "allowed_paths config = []"
    and "normal_abs (current_path (files h))"
  shows "open_readable (allowed_paths c) cwd
      (string_of_path (guest_path (current_path (files h)) (main_filename c))) =
    (True, string_of_path (guest_path (current_path (files h)) (main_filename c)))"
proof -
  let ?cur = "current_path (files h)"
  have "fill_allowed_paths h (apply_allow_all cli) (main_filename c) [] = Inr (written, allowed_paths c)"
    using from_args_fields(1) [OF assms(1)] assms(2) by simp
  then obtain f1 t1 f2 t2 t3 where
      t1: "fake_path h 0 ''/proc/self/maps'' (proc_self_maps (main_filename c))
        (option_paths ?cur (apply_allow_all cli) []) = Inr (f1, t1)"
    and t2: "fake_path h 1 ''/lib/libkvmserverguest.so'' (libkvmserverguest_so h) t1 = Inr (f2, t2)"
    and t3: "fold_result (add_volume ?cur) (volume (apply_allow_all cli)) t2 = Inr t3"
    and t: "allowed_paths c = program_paths ?cur (main_filename c) t3"
    by (auto simp: fill_allowed_paths_def then_do_Inr_iff)
  have "table_inv t3"
    using add_volumes_grants [OF fake_path_grants(1) [OF fake_path_grants(1)
          [OF option_paths_grants(1) [OF table_inv_Nil assms(3)] assms(3) t1] assms(3) t2] assms(3) t3] by blast
  then show ?thesis
    unfolding t program_paths_def Let_def
    by (intro open_readable_ensured ensure_string_path(1) guest_path_normal assms(3))
qed

section \<open>Programs, concurrency and memory\<close>

lemma subcommands_executable:
  assumes "fold_result (subcommand_callback h cli) subs config = Inr config'" "distinct subs"
  shows "(Run \<in> set subs \<longrightarrow> access_x (files h) (main_filename config')) \<and>
    (Storage \<in> set subs \<longrightarrow> storage config' \<and> access_x (files h) (storage_filename config')) \<and>
    (Run \<notin> set subs \<longrightarrow> main_filename config' = main_filename config) \<and>
    (Storage \<notin> set subs \<longrightarrow> storage config' = storage config \<and>
       storage_filename config' = storage_filename config)"
  using assms
proof (induction subs arbitrary: config)
  case (Cons sub subs)
  then obtain mid where mid: "subcommand_callback h cli sub config = Inr mid"
      "fold_result (subcommand_callback h cli) subs mid = Inr config'"
    by (auto simp: then_do_Inr_iff)
  show ?case
    using Cons.IH [OF mid(2)] mid(1) Cons.prems(2) lookup_program_executable [of "files h"]
    by (cases sub) (auto simp: run_callback_def storage_callback_def then_do_Inr_iff split: if_splits)
qed simp

text \<open>
  C27: A configuration is only accepted with a subcommand, each given at most once, and the programs it
  names are executable files: the main program for \<open>run\<close>, the storage program for \<open>storage\<close>, which also
  turns storage on.
\<close>

theorem accepted_programs_are_executable:
  assumes "from_args h cli config = Inr (written, c)"
  shows "(Run \<in> set (subcommands cli) \<or> Storage \<in> set (subcommands cli)) \<and>
    count_list (subcommands cli) Run \<le> 1 \<and> count_list (subcommands cli) Storage \<le> 1 \<and>
    (Run \<in> set (subcommands cli) \<longrightarrow> access_x (files h) (main_filename c)) \<and>
    (Storage \<in> set (subcommands cli) \<longrightarrow> storage c \<and> access_x (files h) (storage_filename c))"
proof -
  have subs: "subcommands (apply_allow_all cli) = subcommands cli" by (simp add: apply_allow_all_def)
  obtain vmem smem m s f table env n where *:
    "filter (\<lambda>sub. sub \<noteq> Escape) (subcommands cli) \<noteq> []"
    "fold_result (subcommand_callback h (apply_allow_all cli)) (remdups (subcommands cli))
       (config\<lparr>vmem_remappings := vmem, storage_remappings := smem\<rparr>) =
     Inr (config\<lparr>vmem_remappings := vmem, storage_remappings := smem,
            main_filename := m, storage := s, storage_filename := f\<rparr>)"
    "fill_networks (services h) (apply_allow_all cli) (config\<lparr>vmem_remappings := vmem,
       storage_remappings := smem, main_filename := m, storage := s, storage_filename := f,
       concurrency := (if concurrency config = 0 then ucast (hardware_concurrency h) else concurrency config),
       allowed_paths := table, environ := env\<rparr>) = Inr n"
    "c = scale_memory n"
    using from_args_steps [OF assms] by metis
  have fields: "main_filename c = m" "storage c = s" "storage_filename c = f"
    using *(3) unfolding *(4)
    by (auto elim!: fill_networks_cases simp: scale_memory_def Let_def)
  have "\<exists>sub \<in> set (subcommands cli). sub \<noteq> Escape" using *(1) by (auto simp: filter_empty_conv)
  then have "Run \<in> set (subcommands cli) \<or> Storage \<in> set (subcommands cli)"
    using subcommand.exhaust by metis
  moreover have "count_list (subcommands cli) sub \<le> 1" if "sub \<noteq> Escape" for sub
  proof (cases "sub \<in> set (subcommands cli)")
    case True
    then obtain xs ys where xs: "remdups (subcommands cli) = xs @ sub # ys"
      by (metis set_remdups split_list)
    obtain mid config' where "subcommand_callback h (apply_allow_all cli) sub mid = Inr config'"
      using *(2) unfolding xs fold_result_append by (auto simp: then_do_Inr_iff)
    with that show ?thesis
      by (cases sub) (auto simp: run_callback_def storage_callback_def subs split: if_splits)
  qed (simp add: count_list_0_iff)
  ultimately show ?thesis using subcommands_executable [OF *(2)] by (simp add: fields)
qed

lemma scale_32_bits: "unat (ucast ((ucast (m :: u32) :: u64) * 2 ^ 20) :: u32) = unat m * 2 ^ 20 mod 2 ^ 32"
proof -
  have "unat m < 2 ^ LENGTH(32)" by (rule unsigned_less)
  then have "unat m < 2 ^ 64" by simp
  then have "unat (ucast m :: u64) = unat m" by (simp add: unsigned_ucast_eq take_bit_eq_mod)
  then have "unat ((ucast m :: u64) * 2 ^ 20) = unat m * 2 ^ 20 mod 2 ^ 64"
    by (simp add: unat_word_ariths)
  then have "unat (ucast ((ucast m :: u64) * 2 ^ 20) :: u32) = unat m * 2 ^ 20 mod 2 ^ 64 mod 2 ^ 32"
    by (simp add: unsigned_ucast_eq take_bit_eq_mod)
  also have "\<dots> = unat m * 2 ^ 20 mod 2 ^ 32" by (rule mod_mod_cancel) (simp add: le_imp_power_dvd)
  finally show ?thesis .
qed

lemma scale_64_bits:
  assumes "unat (m :: u64) < 2 ^ 44"
  shows "unat (m * 2 ^ 20) = unat m * 2 ^ 20"
proof -
  have "unat m * 2 ^ 20 < 2 ^ 64" using assms by simp
  then show ?thesis by (subst unat_mult_no_wrap) simp_all
qed

text \<open>
  C26: The memory limits of an accepted configuration are its megabyte values in bytes, and the address
  space is never smaller than the main memory.  The limits kept in 32 bits (request memory, its limit
  after a reset and shared memory) are reduced modulo \<open>2 ^ 32\<close>, so 4096 megabytes are stored as 0.
\<close>

theorem memory_limits_in_bytes:
  assumes "from_args h cli config = Inr (written, c)"
    and "unat (max_address_space config) < 2 ^ 44" "unat (max_main_memory config) < 2 ^ 44"
  shows "unat (max_address_space c) = max (unat (max_address_space config)) (unat (max_main_memory config)) * 2 ^ 20 \<and>
    unat (max_main_memory c) = unat (max_main_memory config) * 2 ^ 20 \<and>
    max_main_memory c \<le> max_address_space c \<and>
    unat (max_req_mem c) = unat (max_req_mem config) * 2 ^ 20 mod 2 ^ 32 \<and>
    unat (limit_req_mem c) = unat (limit_req_mem config) * 2 ^ 20 mod 2 ^ 32 \<and>
    unat (shared_memory c) = unat (shared_memory config) * 2 ^ 20 mod 2 ^ 32"
proof -
  note fields = from_args_fields [OF assms(1)]
  have small: "unat (max (max_address_space config) (max_main_memory config)) < 2 ^ 44"
    using assms(2,3) by (simp add: max_def)
  have m: "unat (max (max_address_space config) (max_main_memory config)) =
      max (unat (max_address_space config)) (unat (max_main_memory config))"
    by (simp add: max_def word_le_nat_alt)
  have s: "unat (max_address_space c) = max (unat (max_address_space config)) (unat (max_main_memory config)) * 2 ^ 20"
    "unat (max_main_memory c) = unat (max_main_memory config) * 2 ^ 20"
    unfolding fields(4,5) scale_memory_def Let_def
    by (simp_all add: scale_64_bits [OF small, simplified] scale_64_bits [OF assms(3), simplified] m)
  then have "max_main_memory c \<le> max_address_space c" by (simp add: word_le_nat_alt)
  moreover have "unat (max_req_mem c) = unat (max_req_mem config) * 2 ^ 20 mod 2 ^ 32"
    "unat (limit_req_mem c) = unat (limit_req_mem config) * 2 ^ 20 mod 2 ^ 32"
    "unat (shared_memory c) = unat (shared_memory config) * 2 ^ 20 mod 2 ^ 32"
    unfolding fields(6-8) scale_memory_def Let_def using scale_32_bits by simp_all
  ultimately show ?thesis using s by blast
qed

section \<open>Networks\<close>

lemma from_args_networks:
  assumes "from_args h cli config = Inr (written, c)"
  obtains n n' where "fill_networks (services h) (apply_allow_all cli) n = Inr n'"
    "allowed_connect_ipv4 n = allowed_connect_ipv4 config" "allowed_connect_ipv6 n = allowed_connect_ipv6 config"
    "allowed_connect_ipv4 c = allowed_connect_ipv4 n'" "allowed_connect_ipv6 c = allowed_connect_ipv6 n'"
    "allowed_listen_ipv4 c = allowed_listen_ipv4 n'" "allowed_listen_ipv6 c = allowed_listen_ipv6 n'"
proof -
  obtain vmem smem m s f table env n where
    *: "fill_networks (services h) (apply_allow_all cli) (config\<lparr>vmem_remappings := vmem,
       storage_remappings := smem, main_filename := m, storage := s, storage_filename := f,
       concurrency := (if concurrency config = 0 then ucast (hardware_concurrency h) else concurrency config),
       allowed_paths := table, environ := env\<rparr>) = Inr n"
    "c = scale_memory n"
    using from_args_steps [OF assms] by metis
  show thesis by (rule that [OF *(1)]) (simp_all add: *(2) scale_memory_def Let_def)
qed

text \<open>What every accepted configuration is: its table is in order and its lists hold whole addresses.\<close>

definition config_ok :: "Configuration \<Rightarrow> bool" where
  "config_ok c \<longleftrightarrow> table_inv (allowed_paths c) \<and>
     lists_ok (allowed_connect_ipv4 c, allowed_connect_ipv6 c) \<and>
     lists_ok (allowed_listen_ipv4 c, allowed_listen_ipv6 c)"

lemma fill_networks_ok:
  assumes "services_ok net" "fill_networks net cli n = Inr n'"
    and "lists_ok (allowed_connect_ipv4 n, allowed_connect_ipv6 n)"
  shows "lists_ok (allowed_connect_ipv4 n', allowed_connect_ipv6 n') \<and>
    lists_ok (allowed_listen_ipv4 n', allowed_listen_ipv6 n')"
  using assms(2)
proof (cases rule: fill_networks_cases)
  case (all a b)
  then show ?thesis using parse_addresses_ok [OF assms(1) all(1) assms(3)] by simp
next
  case (each a b s1 c4 c6 s2 l4 l6)
  note ab = parse_addresses_ok [OF assms(1) each(1) assms(3)]
  show ?thesis
    using parse_addresses_ok [OF assms(1) each(2) ab] parse_addresses_ok [OF assms(1) each(3) ab] each(4) by simp
qed

text \<open>
  C25: Every configuration that is accepted is well formed: the table of allowed paths is sorted, without
  duplicates, with normalised absolute paths as keys, and every entry of the four allow lists is a whole
  socket address.  It can ask for no fork at all, in one case only: the given concurrency is 0 (\<open>-t 0\<close>) and
  the number of processors the library reports, cut to 16 bits, is 0 too.  The library reports 0 when it
  does not know the number; the code does not fall back to 1.
\<close>

theorem accepted_configuration_is_well_formed:
  assumes "from_args h cli config = Inr (written, c)" "services_ok (services h)"
    and "normal_abs (current_path (files h))" "allowed_paths config = []"
    and "lists_ok (allowed_connect_ipv4 config, allowed_connect_ipv6 config)"
  shows "config_ok c \<and>
    (concurrency c = 0 \<longleftrightarrow> concurrency config = 0 \<and> (ucast (hardware_concurrency h) :: u16) = 0)"
proof -
  obtain n n' where n: "fill_networks (services h) (apply_allow_all cli) n = Inr n'"
    "allowed_connect_ipv4 n = allowed_connect_ipv4 config" "allowed_connect_ipv6 n = allowed_connect_ipv6 config"
    "allowed_connect_ipv4 c = allowed_connect_ipv4 n'" "allowed_connect_ipv6 c = allowed_connect_ipv6 n'"
    "allowed_listen_ipv4 c = allowed_listen_ipv4 n'" "allowed_listen_ipv6 c = allowed_listen_ipv6 n'"
    by (rule from_args_networks [OF assms(1)])
  have "lists_ok (allowed_connect_ipv4 n, allowed_connect_ipv6 n)" using assms(5) n(2,3) by simp
  note lists = fill_networks_ok [OF assms(2) n(1) this]
  have "table_inv (allowed_paths c)"
    using fill_allowed_paths_grants(1) [OF assms(3)] from_args_fields(1) [OF assms(1)] assms(4) by metis
  with lists n show ?thesis
    using from_args_fields(3) [OF assms(1)] by (simp add: config_ok_def)
qed

text \<open>
  C23: \<open>--allow-connect\<close> never lets the guest listen: two configurations that differ in those values
  only allow the same listening addresses.
\<close>

theorem connect_option_does_not_allow_listening:
  assumes "from_args h cli config = Inr (written, c)"
    and "from_args h (cli\<lparr>allow_connect := vs\<rparr>) config = Inr (written', c')"
  shows "validate_network_access addr (allowed_listen_ipv4 c') (allowed_listen_ipv6 c') \<longleftrightarrow>
    validate_network_access addr (allowed_listen_ipv4 c) (allowed_listen_ipv6 c)"
proof -
  have cli: "allow_net (apply_allow_all (cli\<lparr>allow_connect := vs\<rparr>)) = allow_net (apply_allow_all cli)"
    "allow_listen (apply_allow_all (cli\<lparr>allow_connect := vs\<rparr>)) = allow_listen (apply_allow_all cli)"
    by (simp_all add: apply_allow_all_def)
  obtain n n' where n: "fill_networks (services h) (apply_allow_all cli) n = Inr n'"
    "allowed_connect_ipv4 n = allowed_connect_ipv4 config" "allowed_connect_ipv6 n = allowed_connect_ipv6 config"
    "allowed_listen_ipv4 c = allowed_listen_ipv4 n'" "allowed_listen_ipv6 c = allowed_listen_ipv6 n'"
    by (rule from_args_networks [OF assms(1)])
  obtain k k' where k: "fill_networks (services h) (apply_allow_all (cli\<lparr>allow_connect := vs\<rparr>)) k = Inr k'"
    "allowed_connect_ipv4 k = allowed_connect_ipv4 config" "allowed_connect_ipv6 k = allowed_connect_ipv6 config"
    "allowed_listen_ipv4 c' = allowed_listen_ipv4 k'" "allowed_listen_ipv6 c' = allowed_listen_ipv6 k'"
    by (rule from_args_networks [OF assms(2)])
  have "allowed_listen_ipv4 k' = allowed_listen_ipv4 n'" "allowed_listen_ipv6 k' = allowed_listen_ipv6 n'"
    using n(1) k(1) n(2,3) k(2,3)
    by (cases rule: fill_networks_cases; cases rule: fill_networks_cases [OF k(1)]; simp add: cli)+
  then show ?thesis by (simp add: n(4,5) k(4,5))
qed

lemma parse_addresses_nothing:
  "list_all (\<lambda>v. v = [] \<or> v = ''false'') vs \<Longrightarrow> parse_addresses net vs acl = Inr (False, acl)"
  by (induction vs) (auto simp: parse_address_def)

lemma no_network_options:
  assumes "from_args h cli config = Inr (written, c)" "\<not> allow_all cli"
    and "list_all (\<lambda>v. v = [] \<or> v = ''false'') (allow_net cli @ allow_connect cli @ allow_listen cli)"
    and "allowed_connect_ipv4 config = []" "allowed_connect_ipv6 config = []"
  shows "\<not> validate_network_access addr (allowed_connect_ipv4 c) (allowed_connect_ipv6 c) \<and>
    \<not> validate_network_access addr (allowed_listen_ipv4 c) (allowed_listen_ipv6 c)"
proof -
  obtain n n' where n: "fill_networks (services h) (apply_allow_all cli) n = Inr n'"
    "allowed_connect_ipv4 n = []" "allowed_connect_ipv6 n = []"
    "allowed_connect_ipv4 c = allowed_connect_ipv4 n'" "allowed_connect_ipv6 c = allowed_connect_ipv6 n'"
    "allowed_listen_ipv4 c = allowed_listen_ipv4 n'" "allowed_listen_ipv6 c = allowed_listen_ipv6 n'"
    using from_args_networks [OF assms(1)] assms(4,5) by metis
  have "apply_allow_all cli = cli" using assms(2) by (simp add: apply_allow_all_def)
  with n(1) have "n' = n\<lparr>allowed_connect_ipv4 := [], allowed_connect_ipv6 := [],
      allowed_listen_ipv4 := [], allowed_listen_ipv6 := []\<rparr>"
    using assms(3) by (auto simp: fill_networks_def n(2,3) parse_addresses_nothing)
  then show ?thesis by (simp add: n(4-7) validate_nothing)
qed

lemma root_grants_all:
  assumes "table_inv table" "has_root (path_of_string cwd) \<or> has_root (path_of_string path)"
    and "guest_path cur ''/'' \<in> granted extract table"
  shows "fst (lookup_allowed_path path cwd table extract)"
proof -
  have "guest_path cur ''/'' = Path True []"
    by (simp add: make_normal_def path_of_string_root is_relative_def normal_dir_abs resolve_def)
  then have "elems (guest_path cur ''/'') = [''/'']" by (simp add: elems_def)
  moreover have "elems (requested_path cwd path) = ''/'' # names (requested_path cwd path)"
    by (rule elems_normal [OF requested_path_normal [OF assms(2)]])
  ultimately have "prefix (elems (guest_path cur ''/'')) (elems (requested_path cwd path))" by simp
  with assms(3) show ?thesis unfolding lookup_granted_iff [OF assms(1,2)] by (rule bexI [rotated])
qed

text \<open>
  C24: \<open>--allow-all\<close> opens everything: any file can be read and written, and any internet address can be
  connected to and listened on.
\<close>

theorem allow_all_opens_everything:
  assumes "from_args h cli config = Inr (written, c)" "allow_all cli" "allow_net cli = []"
    and "allowed_paths config = []" "normal_abs (current_path (files h))"
    and "has_root (path_of_string cwd) \<or> has_root (path_of_string path)"
    and "ss_family addr = AF_INET \<or> ss_family addr = AF_INET6"
  shows "fst (open_readable (allowed_paths c) cwd path) \<and> fst (open_writable (allowed_paths c) cwd path) \<and>
    validate_network_access addr (allowed_connect_ipv4 c) (allowed_connect_ipv6 c) \<and>
    validate_network_access addr (allowed_listen_ipv4 c) (allowed_listen_ipv6 c)"
proof -
  let ?cli = "apply_allow_all cli"
  have cli: "''/'' \<in> set (allow_read ?cli)" "''/'' \<in> set (allow_write ?cli)" "allow_net ?cli = [''true'']"
    using assms(2,3) by (simp_all add: apply_allow_all_def)
  have "fill_allowed_paths h ?cli (main_filename c) [] = Inr (written, allowed_paths c)"
    using from_args_fields(1) [OF assms(1)] assms(4) by simp
  note g = fill_allowed_paths_grants [OF assms(5) this]
  have root: "guest_path (current_path (files h)) ''/'' \<in> granted readable (allowed_paths c)"
    "guest_path (current_path (files h)) ''/'' \<in> granted writable (allowed_paths c)"
    unfolding g(2,3) readable_paths_def writable_paths_def using cli(1,2) by (auto intro!: imageI)
  obtain n n' where n: "fill_networks (services h) ?cli n = Inr n'"
    "allowed_connect_ipv4 c = allowed_connect_ipv4 n'" "allowed_connect_ipv6 c = allowed_connect_ipv6 n'"
    "allowed_listen_ipv4 c = allowed_listen_ipv4 n'" "allowed_listen_ipv6 c = allowed_listen_ipv6 n'"
    by (rule from_args_networks [OF assms(1)])
  obtain v4 v6 where v: "parse_addresses (services h) [''true'']
      (allowed_connect_ipv4 n, allowed_connect_ipv6 n) = Inr (True, v4, v6)"
      "validate_network_access addr v4 v6"
    using parse_addresses_true [of "services h" "[]"] assms(7) by metis
  have "n' = n\<lparr>allowed_connect_ipv4 := v4, allowed_connect_ipv6 := v6,
      allowed_listen_ipv4 := v4, allowed_listen_ipv6 := v6\<rparr>"
    using n(1) v(1) by (auto simp: fill_networks_def cli(3) simp del: parse_addresses.simps)
  with v(2) have "validate_network_access addr (allowed_connect_ipv4 c) (allowed_connect_ipv6 c)"
    "validate_network_access addr (allowed_listen_ipv4 c) (allowed_listen_ipv6 c)"
    by (simp_all add: n(2-5))
  then show ?thesis
    using root_grants_all [OF g(1) assms(6) root(1)] root_grants_all [OF g(1) assms(6) root(2)]
    by (simp add: open_readable_def open_writable_def)
qed

section \<open>Witnesses\<close>

text \<open>
  A host and two command lines: one that grants a few files and one connection, one with
  \<^verbatim>\<open>--allow-all\<close>.
\<close>

definition example_machine :: host where
  "example_machine =
     \<lparr>files = example_host, host_environ = [''HOME=/root''], services = example_services,
      hardware_concurrency = 8, tmpnam = (\<lambda>n. if n = 0 then ''/tmp/fileA'' else ''/tmp/fileB''),
      fopen_w = (\<lambda>_. True), libkvmserverguest_so = ''ELF''\<rparr>"

definition example_cli :: cli_values where
  "example_cli =
     \<lparr>allow_all = False, allow_read = [''/srv''], allow_write = [], volume = [''/data:/var/data:rw''],
      allow_env = [''HOME''], allow_net = [], allow_connect = [''10.0.0.1:80''], allow_listen = [],
      run_remappings = [], storage_vm_remappings = [], subcommands = [Run]\<rparr>"

definition quiet_cli :: cli_values where
  "quiet_cli = example_cli\<lparr>allow_connect := [''false'']\<rparr>"

definition open_cli :: cli_values where
  "open_cli = example_cli\<lparr>allow_all := True, allow_read := [], volume := [], allow_env := [], allow_connect := []\<rparr>"

definition example_start :: Configuration where
  "example_start = default_configuration\<lparr>main_filename := ''server'', max_req_mem := 4096\<rparr>"

lemma fill_allowed_paths_succeeds:
  assumes "\<And>dst. fopen_w h dst" "\<And>triple table. triple \<in> set (volume cli) \<Longrightarrow>
      \<exists>table'. add_volume (current_path (files h)) triple table = Inr table'"
  shows "\<exists>w table. fill_allowed_paths h cli main table0 = Inr (w, table)"
proof -
  have "\<exists>table'. fold_result (add_volume (current_path (files h))) vs table = Inr table'"
    if "set vs \<subseteq> set (volume cli)" for vs table
    using that
  proof (induction vs arbitrary: table)
    case (Cons v vs)
    then obtain t where "add_volume (current_path (files h)) v table = Inr t" using assms(2) by fastforce
    with Cons show ?case by auto
  qed simp
  then show ?thesis
    using assms(1) by (simp add: fill_allowed_paths_def fake_path_def Let_def then_do_Inr_iff)
qed

lemma from_args_succeeds:
  assumes "run_remappings cli = []" "storage_vm_remappings cli = []" "subcommands cli = [Run]"
    and "lookup_program (files h) (main_filename config) = Inr f"
    and "\<exists>w table. fill_allowed_paths h (apply_allow_all cli) f (allowed_paths config) = Inr (w, table)"
    and "\<exists>e. guest_environ (host_environ h) (allow_env (apply_allow_all cli)) (environ config) = Inr e"
    and "\<And>n. allowed_connect_ipv4 n = allowed_connect_ipv4 config \<Longrightarrow>
      allowed_connect_ipv6 n = allowed_connect_ipv6 config \<Longrightarrow>
      \<exists>n'. fill_networks (services h) (apply_allow_all cli) n = Inr n'"
  shows "\<exists>w c. from_args h cli config = Inr (w, c)"
proof -
  have cli: "run_remappings (apply_allow_all cli) = []" "storage_vm_remappings (apply_allow_all cli) = []"
    "subcommands (apply_allow_all cli) = [Run]"
    using assms(1-3) by (simp_all add: apply_allow_all_def)
  show ?thesis
    using assms(4-6) assms(7)
    by (auto simp: from_args_def cli run_callback_def app_callback_def Let_def then_do_Inr_iff)
qed

lemma example_volume:
  "\<exists>table'. add_volume cur ''/data:/var/data:rw'' table = Inr table'"
proof -
  have "split ''/data:/var/data:rw'' (CHR '':'') = [''/data'', ''/var/data'', ''rw'']" by code_simp
  then show ?thesis by (simp add: add_volume_def char_at_def)
qed

lemma example_accepted:
  "\<exists>w c. from_args example_machine example_cli example_start = Inr (w, c)"
  "\<exists>w c. from_args example_machine quiet_cli example_start = Inr (w, c)"
  "\<exists>w c. from_args example_machine open_cli example_start = Inr (w, c)"
proof -
  have lookup: "lookup_program (files example_machine) (main_filename example_start) = Inr ''/usr/bin/server''"
    by code_simp
  have paths: "\<exists>w table. fill_allowed_paths example_machine cli f t = Inr (w, table)"
    if "set (volume cli) \<subseteq> {''/data:/var/data:rw''}" for cli f t
    by (rule fill_allowed_paths_succeeds) (use that example_volume in \<open>auto simp: example_machine_def\<close>)
  have cli: "apply_allow_all example_cli = example_cli" "apply_allow_all quiet_cli = quiet_cli"
    "allow_env (apply_allow_all open_cli) = [''*'']" "allow_net (apply_allow_all open_cli) = [''true'']"
    "volume (apply_allow_all open_cli) = []"
    by (simp_all add: apply_allow_all_def example_cli_def quiet_cli_def open_cli_def)
  have env: "\<exists>e. guest_environ (host_environ example_machine) [''HOME''] env = Inr e"
    "\<exists>e. guest_environ (host_environ example_machine) [''*''] env = Inr e" for env
    by (simp_all add: guest_environ_def add_env_def getenv_def example_machine_def)
  have conn: "\<exists>l. parse_addresses (services example_machine) [''10.0.0.1:80''] ([], []) = Inr (False, l)"
  proof -
    have "parse_addresses (services example_machine) [''10.0.0.1:80''] ([], []) =
        Inr (False, [make_ipv4 [10, 0, 0, 1] 80], [])" by code_simp
    then show ?thesis by blast
  qed
  have start: "allowed_connect_ipv4 example_start = []" "allowed_connect_ipv6 example_start = []"
    by (simp_all add: example_start_def default_configuration_def)
  have example: "run_remappings example_cli = []" "storage_vm_remappings example_cli = []"
    "subcommands example_cli = [Run]" "volume example_cli = [''/data:/var/data:rw'']"
    "allow_env example_cli = [''HOME'']" "allow_net example_cli = []"
    "allow_connect example_cli = [''10.0.0.1:80'']" "allow_listen example_cli = []"
    by (simp_all add: example_cli_def)
  have quiet: "run_remappings quiet_cli = []" "storage_vm_remappings quiet_cli = []"
    "subcommands quiet_cli = [Run]" "volume quiet_cli = [''/data:/var/data:rw'']"
    "allow_env quiet_cli = [''HOME'']" "allow_net quiet_cli = []"
    "allow_connect quiet_cli = [''false'']" "allow_listen quiet_cli = []"
    by (simp_all add: quiet_cli_def example_cli_def)
  have opened: "run_remappings open_cli = []" "storage_vm_remappings open_cli = []"
    "subcommands open_cli = [Run]"
    by (simp_all add: open_cli_def example_cli_def)
  show "\<exists>w c. from_args example_machine example_cli example_start = Inr (w, c)"
  proof (rule from_args_succeeds [OF example(1-3) lookup], unfold cli example start)
    show "\<exists>w table. fill_allowed_paths example_machine example_cli ''/usr/bin/server''
        (allowed_paths example_start) = Inr (w, table)" by (rule paths) (simp add: example)
    show "\<exists>n'. fill_networks (services example_machine) example_cli n = Inr n'"
      if "allowed_connect_ipv4 n = []" "allowed_connect_ipv6 n = []" for n
      using conn that by (auto simp: fill_networks_def Let_def example simp del: parse_addresses.simps(2))
  qed (rule env)
  show "\<exists>w c. from_args example_machine quiet_cli example_start = Inr (w, c)"
  proof (rule from_args_succeeds [OF quiet(1-3) lookup], unfold cli quiet start)
    show "\<exists>w table. fill_allowed_paths example_machine quiet_cli ''/usr/bin/server''
        (allowed_paths example_start) = Inr (w, table)" by (rule paths) (simp add: quiet)
    show "\<exists>n'. fill_networks (services example_machine) quiet_cli n = Inr n'" for n
      by (auto simp: fill_networks_def Let_def quiet parse_addresses_nothing simp del: parse_addresses.simps(2))
  qed (rule env)
  show "\<exists>w c. from_args example_machine open_cli example_start = Inr (w, c)"
  proof (rule from_args_succeeds [OF opened lookup], unfold cli)
    show "\<exists>w table. fill_allowed_paths example_machine (apply_allow_all open_cli) ''/usr/bin/server''
        (allowed_paths example_start) = Inr (w, table)" by (rule paths) (simp add: cli)
    show "\<exists>n'. fill_networks (services example_machine) (apply_allow_all open_cli) n = Inr n'" for n
      using parse_addresses_true [of "services example_machine" "[]"
          "(allowed_connect_ipv4 n, allowed_connect_ipv6 n)"]
      by (auto simp: fill_networks_def Let_def cli simp del: parse_addresses.simps(2))
  qed (rule env)
qed

lemma example_start_facts:
  "allowed_paths example_start = []" "normal_abs (current_path (files example_machine))"
  "allowed_connect_ipv4 example_start = []" "allowed_connect_ipv6 example_start = []"
  "unat (max_address_space example_start) = 122880" "unat (max_main_memory example_start) = 8192"
  "unat (max_req_mem example_start) = 4096"
  by (simp_all add: example_start_def default_configuration_def example_machine_def example_host_def
      normal_abs_def clean_name_def)

text \<open>What the examples give.\<close>

theorem accepted_programs_are_executable_witness:
  "\<exists>w c. from_args example_machine example_cli example_start = Inr (w, c) \<and>
    access_x (files example_machine) (main_filename c)"
proof -
  obtain w c where c: "from_args example_machine example_cli example_start = Inr (w, c)"
    using example_accepted(1) by blast
  moreover have "Run \<in> set (subcommands example_cli)" by (simp add: example_cli_def)
  ultimately show ?thesis using accepted_programs_are_executable [OF c] by blast
qed

theorem memory_limits_in_bytes_witness:
  "\<exists>w c. from_args example_machine example_cli example_start = Inr (w, c) \<and>
    unat (max_address_space c) = 122880 * 2 ^ 20 \<and> unat (max_req_mem c) = 0"
proof -
  obtain w c where c: "from_args example_machine example_cli example_start = Inr (w, c)"
    using example_accepted(1) by blast
  have "unat (max_address_space example_start) < 2 ^ 44" "unat (max_main_memory example_start) < 2 ^ 44"
    by (simp_all add: example_start_facts)
  from memory_limits_in_bytes [OF c this] c show ?thesis by (simp add: example_start_facts)
qed

theorem connect_option_does_not_allow_listening_witness:
  "\<exists>w c w' c'. from_args example_machine example_cli example_start = Inr (w, c) \<and>
    from_args example_machine quiet_cli example_start = Inr (w', c') \<and>
    (\<forall>addr. validate_network_access addr (allowed_listen_ipv4 c') (allowed_listen_ipv6 c') \<longleftrightarrow>
      validate_network_access addr (allowed_listen_ipv4 c) (allowed_listen_ipv6 c))"
proof -
  obtain w c w' c' where c: "from_args example_machine example_cli example_start = Inr (w, c)"
      "from_args example_machine quiet_cli example_start = Inr (w', c')"
    using example_accepted(1,2) by blast
  from c connect_option_does_not_allow_listening [OF c(1) c(2) [unfolded quiet_cli_def]]
  show ?thesis by blast
qed

theorem allow_all_opens_everything_witness:
  "\<exists>w c. from_args example_machine open_cli example_start = Inr (w, c) \<and>
    fst (open_writable (allowed_paths c) ''/'' ''/etc/passwd'') \<and>
    validate_network_access (set_field 0 AF_INET sockaddr_zero) (allowed_listen_ipv4 c) (allowed_listen_ipv6 c)"
proof -
  obtain w c where c: "from_args example_machine open_cli example_start = Inr (w, c)"
    using example_accepted(3) by blast
  have "allow_all open_cli" "allow_net open_cli = []" by (simp_all add: open_cli_def example_cli_def)
  moreover have "has_root (path_of_string ''/'') \<or> has_root (path_of_string ''/etc/passwd'')" by code_simp
  moreover have "ss_family (set_field 0 AF_INET sockaddr_zero) = AF_INET \<or>
      ss_family (set_field 0 AF_INET sockaddr_zero) = AF_INET6" by code_simp
  ultimately show ?thesis
    using allow_all_opens_everything [OF c _ _ example_start_facts(1,2)] c by blast
qed

theorem accepted_configuration_is_well_formed_witness:
  "\<exists>w c. from_args example_machine example_cli example_start = Inr (w, c) \<and> config_ok c"
proof -
  obtain w c where c: "from_args example_machine example_cli example_start = Inr (w, c)"
    using example_accepted(1) by blast
  have "services_ok (services example_machine)"
    by (simp add: services_ok_def example_machine_def example_services_def)
  moreover have "lists_ok (allowed_connect_ipv4 example_start, allowed_connect_ipv6 example_start)"
    by (simp add: example_start_facts)
  ultimately show ?thesis
    using accepted_configuration_is_well_formed [OF c _ example_start_facts(2,1)] c by blast
qed

end
