(* ===== verification/Elf.thy ===== *)
theory Elf
  imports Configuration
begin

text \<open>
  How the constructor of a virtual machine chooses its memory layout (vm.cpp): the checks on the ELF
  binary, the base address of the guest's memory, the binary that is loaded first, and the options
  the machine is created, forked and reset with.  The ELF analysis \<open>tinykvm::is_dynamic_elf\<close> and the
  default values of \<open>tinykvm::MachineOptions\<close> are parameters.
\<close>

section \<open>Data\<close>

text \<open>
  The exceptions of the server: \<open>std::runtime_error\<close>, \<open>std::out_of_range\<close>, \<open>std::invalid_argument\<close>,
  \<open>std::filesystem::filesystem_error\<close>, \<open>std::bad_alloc\<close> and the exceptions of the hypervisor, a
  timeout among them.  \<open>UndefinedRead\<close> is no exception: it marks a read outside an array or a mapping.
\<close>

datatype vm_error = RuntimeError string | OutOfRangeError string | InvalidArgument string
  | FilesystemError string | BadAlloc | MachineError string | MachineTimeout | UndefinedRead string

record DynamicElf =
  is_dynamic :: bool
  has_interpreter :: bool

type_synonym elf_analysis = "u8 list \<Rightarrow> DynamicElf"

record MachineOptions =
  max_mem :: u64
  max_cow_mem :: u64
  stack_size :: u64
  opt_dylink_address_hint :: u64
  opt_heap_address_hint :: u64
  vmem_base_address :: u64
  remappings :: "VirtualRemapping list"
  verbose_loader :: bool
  opt_hugepages :: bool
  master_direct_memory_writes :: bool
  opt_split_hugepages :: bool
  opt_executable_heap :: bool
  opt_mmap_backed_files :: bool
  snapshot_file :: string
  hugepages_arena_size :: u64
  reset_free_work_mem :: u64
  reset_copy_all_registers :: bool
  reset_keep_all_work_memory :: bool

section \<open>The binary\<close>

definition is_interpreted_binary :: "elf_analysis \<Rightarrow> u8 list \<Rightarrow> vm_error + bool" where
  "is_interpreted_binary is_dynamic_elf binary =
     (if length binary < 128 then Inl (RuntimeError ''Invalid ELF program (binary too small)'')
      else Inr (has_interpreter (is_dynamic_elf binary)))"

text \<open>A little-endian 64-bit number, and the member \<open>e_entry\<close> of \<open>Elf64_Ehdr\<close>, at offset 24.\<close>

definition le64 :: "u8 list \<Rightarrow> u64" where
  "le64 bs = foldr (\<lambda>b n. n * 256 + ucast b) bs 0"

definition e_entry :: "u8 list \<Rightarrow> u64" where
  "e_entry binary = le64 (field 24 8 binary)"

definition detect_gigapage_from :: "elf_analysis \<Rightarrow> u8 list \<Rightarrow> u64 \<Rightarrow> vm_error + u64" where
  "detect_gigapage_from is_dynamic_elf binary hint =
     (if 2 ^ 30 \<le> hint \<and> is_dynamic (is_dynamic_elf binary) then Inr (push_bit 30 (drop_bit 30 hint))
      else if length binary < 128 then Inl (RuntimeError ''Invalid ELF program (binary too small)'')
      else
        let start_address_gigapage = drop_bit 30 (e_entry binary)
        in if 512 \<le> start_address_gigapage
           then Inl (RuntimeError ''Invalid ELF start address (address was > 512GiB)'')
           else Inr (push_bit 30 start_address_gigapage))"

text \<open>\<open>ld\<close> is the dynamic linker that \<open>init_kvm\<close> loaded.\<close>

definition select_main_binary :: "elf_analysis \<Rightarrow> u8 list \<Rightarrow> u8 list \<Rightarrow> u8 list" where
  "select_main_binary is_dynamic_elf ld program_binary =
     (if has_interpreter (is_dynamic_elf program_binary) then ld else program_binary)"

definition dylink_address :: "Configuration \<Rightarrow> bool \<Rightarrow> u64" where
  "dylink_address config is_storage =
     (if is_storage then storage_dylink_address_hint config else dylink_address_hint config)"

section \<open>Options of the machine\<close>

text \<open>The options of a machine created from a binary.\<close>

definition main_options ::
  "MachineOptions \<Rightarrow> elf_analysis \<Rightarrow> u8 list \<Rightarrow> Configuration \<Rightarrow> bool \<Rightarrow> vm_error + MachineOptions" where
  "main_options defaults is_dynamic_elf binary config is_storage =
     then_do (detect_gigapage_from is_dynamic_elf binary (dylink_address config is_storage)) (\<lambda>base.
     Inr (defaults\<lparr>
       max_mem := max_address_space config,
       max_cow_mem := 0,
       opt_dylink_address_hint := dylink_address config is_storage,
       opt_heap_address_hint := (if is_storage then 0 else heap_address_hint config),
       vmem_base_address := base,
       remappings := (if is_storage then storage_remappings config else vmem_remappings config),
       verbose_loader := verbose config,
       opt_hugepages := (hugepage_arena_size config \<noteq> 0),
       master_direct_memory_writes := True,
       opt_split_hugepages := False,
       opt_executable_heap := executable_heap config,
       opt_mmap_backed_files := (mmap_backed_files config \<and> (is_storage \<or> snapshot_filename config = [])),
       snapshot_file := (if is_storage then [] else snapshot_filename config),
       hugepages_arena_size := hugepage_arena_size config\<rparr>))"

text \<open>The options of a fork.\<close>

definition fork_options :: "MachineOptions \<Rightarrow> Configuration \<Rightarrow> MachineOptions" where
  "fork_options defaults config =
     defaults\<lparr>max_mem := max_main_memory config, max_cow_mem := ucast (max_req_mem config),
              opt_split_hugepages := split_hugepages config,
              hugepages_arena_size := hugepage_arena_size config\<rparr>"

text \<open>The options of a reset; \<open>max_address\<close> is the size of the machine reset to.\<close>

definition MAIN_STACK_SIZE :: u64 where
  "MAIN_STACK_SIZE = push_bit 20 4"

definition reset_options :: "MachineOptions \<Rightarrow> u64 \<Rightarrow> Configuration \<Rightarrow> MachineOptions" where
  "reset_options defaults max_address config =
     defaults\<lparr>max_mem := max_address, max_cow_mem := ucast (max_req_mem config),
              stack_size := MAIN_STACK_SIZE,
              reset_free_work_mem := ucast (limit_req_mem config),
              reset_copy_all_registers := True,
              reset_keep_all_work_memory := ephemeral_keep_working_memory config\<rparr>"

section \<open>The base address\<close>

lemma unat_gigapage: "unat (push_bit 30 (drop_bit 30 (a :: u64))) = unat a div 2 ^ 30 * 2 ^ 30"
proof -
  have "unat (push_bit 30 (drop_bit 30 a)) = (unat a div 2 ^ 30 * 2 ^ 30) mod 2 ^ 64"
    by (simp add: push_bit_eq_mult drop_bit_eq_div unat_word_ariths unat_div mult.commute mod_mult_right_eq)
  moreover have "unat a < 2 ^ LENGTH(64)" by (rule unsigned_less)
  then have "unat a div 2 ^ 30 * 2 ^ 30 < 2 ^ 64"
    using div_times_less_eq_dividend [of "unat a" "2 ^ 30"] by simp
  ultimately show ?thesis by simp
qed

text \<open>
  C33: The guest's memory starts at a gigapage boundary: the one below the address hint for a
  position-independent binary with a hint of at least one gigabyte, and otherwise the one below the
  entry point, which is then within the first 512 gigabytes.
\<close>

theorem guest_memory_starts_at_gigapage:
  assumes "detect_gigapage_from is_dynamic_elf binary hint = Inr base"
  shows "2 ^ 30 dvd unat base \<and>
    (if 2 ^ 30 \<le> hint \<and> is_dynamic (is_dynamic_elf binary)
     then unat base \<le> unat hint \<and> unat hint < unat base + 2 ^ 30
     else 128 \<le> length binary \<and> unat base \<le> unat (e_entry binary) \<and>
       unat (e_entry binary) < unat base + 2 ^ 30 \<and> unat (e_entry binary) < 2 ^ 39)"
proof -
  have dvd: "2 ^ 30 dvd unat (push_bit 30 (drop_bit 30 (a :: u64)))" for a
    by (simp only: unat_gigapage dvd_triv_right)
  have le: "unat (push_bit 30 (drop_bit 30 (a :: u64))) \<le> unat a" for a
    by (simp only: unat_gigapage div_times_less_eq_dividend)
  have lt: "unat a < unat (push_bit 30 (drop_bit 30 (a :: u64))) + 2 ^ 30" for a
    unfolding unat_gigapage using dividend_less_div_times [of "2 ^ 30" "unat a"] by simp
  show ?thesis
  proof (cases "2 ^ 30 \<le> hint \<and> is_dynamic (is_dynamic_elf binary)")
    case True
    then have "base = push_bit 30 (drop_bit 30 hint)"
      using assms by (simp add: detect_gigapage_from_def)
    then show ?thesis using True dvd le lt by auto
  next
    case False
    then have base: "base = push_bit 30 (drop_bit 30 (e_entry binary))" "\<not> length binary < 128"
      and small: "drop_bit 30 (e_entry binary) < 512"
      using assms unfolding detect_gigapage_from_def if_not_P [OF False]
      by (auto simp: Let_def not_le split: if_splits)
    have "unat (e_entry binary) div 2 ^ 30 < 512"
      using small by (simp add: word_less_nat_alt drop_bit_eq_div unat_div)
    then have "unat (e_entry binary) < 2 ^ 39" by simp
    then show ?thesis using False base dvd le lt by auto
  qed
qed

section \<open>Witness\<close>

text \<open>A static binary whose entry point is 0x401000 past 2 gigabytes.\<close>

definition example_binary :: "u8 list" where
  "example_binary = replicate 24 0 @ [0, 0x10, 0x40, 0x80, 0, 0, 0, 0] @ replicate 96 0"

theorem guest_memory_starts_at_gigapage_witness:
  "detect_gigapage_from (\<lambda>_. \<lparr>is_dynamic = False, has_interpreter = False\<rparr>) example_binary 0 = Inr 0x80000000 \<and>
   unat (e_entry example_binary) < unat (0x80000000 :: u64) + 2 ^ 30"
proof -
  have d: "detect_gigapage_from (\<lambda>_. \<lparr>is_dynamic = False, has_interpreter = False\<rparr>) example_binary 0 =
      Inr 0x80000000" by code_simp
  from guest_memory_starts_at_gigapage [OF d] d show ?thesis by simp
qed

end
