(* ===== verification/VirtualMachine.thy ===== *)
theory VirtualMachine
  imports Elf
begin

text \<open>
  The class \<open>VirtualMachine\<close> (vm.hpp, vm.cpp): its members, its two constructors, the handler of
  unknown system calls and the socket callbacks that every machine has.  The hypervisor library is a
  parameter: what it keeps of a guest is the registers the server touches and an opaque memory.
\<close>

section \<open>Data\<close>

datatype BinaryType = Static | StaticPie | Dynamic

datatype PollMethod = Undefined | Blocking | Poll | Epoll

record registers =
  rax :: u64
  rip :: u64
  rflags :: u64
  rcx :: u64
  r11 :: u64
  rdi :: u64
  rsi :: u64

text \<open>
  A \<open>tinykvm::Machine\<close>: whether \<open>stop()\<close> was called in the current run, the argument of the last
  \<open>prepare_copy_on_write\<close>, the arguments and environment given to \<open>setup_linux\<close>, the storage machine it is
  connected to (whether for good, and the number of that machine), whether a mutex lets one thread at a
  time into it (\<open>remote_serializer\<close>), and the verbosity flags.
\<close>

record 'm machine =
  regs :: registers
  memory :: 'm
  stopped :: bool
  cow_memory :: "u64 option"
  linux_setup :: "(string list \<times> string list) option"
  remote :: "(bool \<times> u32) option"
  remote_serializer :: bool
  verbose_system_calls :: bool
  verbose_mmap :: bool
  verbose_threads :: bool

text \<open>
  The callback slots of \<open>fds()\<close>, each with the callback installed: none, the one of the constructor, of
  \<open>initialize\<close>, of \<open>warmup\<close> or of a fork.  \<open>find_readonly_hook\<close> is the slot for the callback by which a fork
  finds the descriptors of its master.
\<close>

datatype hook = NoHook | ConstructorHook | BootHook | WarmupHook | ForkHook

record fds =
  fds_verbose :: bool
  preempt_epoll_wait :: bool
  fds_cwd :: string
  find_readonly_hook :: hook
  open_writable_hook :: hook
  open_readable_hook :: hook
  resolve_symlink_hook :: hook
  connect_socket_hook :: hook
  bind_socket_hook :: hook
  listening_socket_hook :: hook
  epoll_wait_hook :: hook
  poll_hook :: hook
  accept_hook :: hook
  accept_socket_hook :: hook
  free_fd_hook :: hook

definition new_fds :: fds where
  "new_fds = \<lparr>fds_verbose = False, preempt_epoll_wait = False, fds_cwd = [], find_readonly_hook = NoHook,
     open_writable_hook = NoHook, open_readable_hook = NoHook, resolve_symlink_hook = NoHook,
     connect_socket_hook = NoHook, bind_socket_hook = NoHook, listening_socket_hook = NoHook, epoll_wait_hook = NoHook, poll_hook = NoHook,
     accept_hook = NoHook, accept_socket_hook = NoHook, free_fd_hook = NoHook\<rparr>"

record 'm VirtualMachine =
  m_machine :: "'m machine"
  m_fds :: fds
  m_config :: Configuration
  m_original_binary :: "u8 list"
  m_binary_type :: BinaryType
  m_reqid :: u32
  m_ephemeral :: bool
  m_is_storage :: bool
  m_reset_needed :: bool
  m_waiting_for_requests :: bool
  m_blocking_connections :: bool
  m_tracked_client_fd :: int
  m_tracked_client_vfd :: int
  m_poll_method :: PollMethod

text \<open>
  The hypervisor: the default options, the ELF analysis, and the operations that create, fork and reset
  a machine, each of which may throw.
\<close>

record 'm tinykvm =
  default_options :: MachineOptions
  is_dynamic_elf :: elf_analysis
  create_machine :: "u8 list \<Rightarrow> MachineOptions \<Rightarrow> vm_error + 'm machine"
  fork_machine :: "'m machine \<Rightarrow> MachineOptions \<Rightarrow> vm_error + 'm machine"
  reset_machine :: "'m machine \<Rightarrow> 'm machine \<Rightarrow> MachineOptions \<Rightarrow> vm_error + 'm machine"
  max_address :: "'m machine \<Rightarrow> u64"

text \<open>\<open>fds().is_writable_path\<close> and \<open>fds().is_readable_path\<close>.\<close>

record path_checks =
  is_writable_path :: "string \<Rightarrow> bool"
  is_readable_path :: "string \<Rightarrow> bool"

section \<open>Small operations\<close>

definition vm_name :: "'m VirtualMachine \<Rightarrow> string" where
  "vm_name vm = (if m_is_storage vm then storage_filename (m_config vm) else main_filename (m_config vm))"

definition binary_type_string :: "'m VirtualMachine \<Rightarrow> string" where
  "binary_type_string vm =
     (case m_binary_type vm of Static \<Rightarrow> ''static'' | StaticPie \<Rightarrow> ''static-pie'' | Dynamic \<Rightarrow> ''dynamic'')"

definition stop :: "'m VirtualMachine \<Rightarrow> 'm VirtualMachine" where
  "stop vm = vm\<lparr>m_machine := (m_machine vm)\<lparr>stopped := True\<rparr>\<rparr>"

definition set_registers :: "(registers \<Rightarrow> registers) \<Rightarrow> 'm VirtualMachine \<Rightarrow> 'm VirtualMachine" where
  "set_registers f vm = vm\<lparr>m_machine := (m_machine vm)\<lparr>regs := f (regs (m_machine vm))\<rparr>\<rparr>"

definition set_verbose :: "Configuration \<Rightarrow> 'm machine \<Rightarrow> 'm machine" where
  "set_verbose config m =
     m\<lparr>verbose_system_calls := verbose_syscalls config, verbose_mmap := verbose_syscalls config,
       verbose_threads := verbose_syscalls config\<rparr>"

section \<open>Constructors\<close>

text \<open>A machine for a program, or for the storage program.\<close>

definition new_machine ::
  "'m tinykvm \<Rightarrow> u8 list \<Rightarrow> u8 list \<Rightarrow> Configuration \<Rightarrow> bool \<Rightarrow> vm_error + 'm VirtualMachine" where
  "new_machine k ld binary config is_storage =
     then_do (main_options (default_options k) (is_dynamic_elf k) binary config is_storage) (\<lambda>options.
     then_do (create_machine k (select_main_binary (is_dynamic_elf k) ld binary) options) (\<lambda>machine.
     Inr \<lparr>m_machine = set_verbose config machine,
          m_fds = new_fds\<lparr>fds_verbose := verbose config, preempt_epoll_wait := True,
                          fds_cwd := current_working_directory config,
                          open_writable_hook := ConstructorHook, open_readable_hook := ConstructorHook,
                          resolve_symlink_hook := ConstructorHook, connect_socket_hook := ConstructorHook,
                          bind_socket_hook := ConstructorHook, listening_socket_hook := ConstructorHook\<rparr>,
          m_config = config, m_original_binary = binary, m_binary_type = Static, m_reqid = 0,
          m_ephemeral = ephemeral config, m_is_storage = is_storage, m_reset_needed = False,
          m_waiting_for_requests = False, m_blocking_connections = False,
          m_tracked_client_fd = - 1, m_tracked_client_vfd = - 1, m_poll_method = Undefined\<rparr>))"

text \<open>
  A fork of a machine.  It finds the read-only descriptors of the machine it was forked from, opens files
  by the same rules and takes over the connect and bind callbacks;
  the three connection callbacks are installed on ephemeral forks only, and the slots for listening
  sockets and symbolic links stay empty.
\<close>

definition fork_fds :: "fds \<Rightarrow> Configuration \<Rightarrow> bool \<Rightarrow> fds" where
  "fork_fds other config is_ephemeral =
     (let fds = new_fds\<lparr>fds_verbose := verbose config, fds_cwd := current_working_directory config,
                        preempt_epoll_wait := False, find_readonly_hook := ForkHook,
                        open_writable_hook := ConstructorHook, open_readable_hook := ConstructorHook,
                        connect_socket_hook := connect_socket_hook other,
                        bind_socket_hook := bind_socket_hook other\<rparr>
      in if is_ephemeral then
           fds\<lparr>accept_hook := ForkHook, accept_socket_hook := ForkHook, free_fd_hook := ForkHook\<rparr>
         else fds)"

definition new_fork ::
  "'m tinykvm \<Rightarrow> 'm VirtualMachine \<Rightarrow> u32 \<Rightarrow> bool \<Rightarrow> vm_error + 'm VirtualMachine" where
  "new_fork k other reqid is_storage =
     then_do (fork_machine k (m_machine other) (fork_options (default_options k) (m_config other))) (\<lambda>machine.
     Inr \<lparr>m_machine = set_verbose (m_config other) machine,
          m_fds = fork_fds (m_fds other) (m_config other) (m_ephemeral other),
          m_config = m_config other, m_original_binary = m_original_binary other,
          m_binary_type = m_binary_type other, m_reqid = reqid,
          m_ephemeral = m_ephemeral other, m_is_storage = is_storage, m_reset_needed = False,
          m_waiting_for_requests = False, m_blocking_connections = False,
          m_tracked_client_fd = - 1, m_tracked_client_vfd = - 1, m_poll_method = m_poll_method other\<rparr>)"

text \<open>
  The connection of a machine to a storage machine, \<open>permanent_remote_connect\<close> or \<open>remote_connect\<close>.
\<close>

definition connect_storage :: "Configuration \<Rightarrow> 'm VirtualMachine \<Rightarrow> 'm VirtualMachine \<Rightarrow> 'm VirtualMachine" where
  "connect_storage config storage_vm vm =
     vm\<lparr>m_machine := (m_machine vm)\<lparr>remote := Some (storage_ipre_permanent config, m_reqid storage_vm)\<rparr>\<rparr>"

section \<open>System calls the hypervisor does not know\<close>

text \<open>
  What the handler asks of the hypervisor: to resume the storage machine (for good or until it pauses
  again) with the address and the length of a buffer, nothing more than to pause, or nothing but a message.
\<close>

datatype syscall_effect =
    RemoteResume bool u64 u64
  | Paused
  | Unhandled string

definition unhandled_syscall :: "'m VirtualMachine \<Rightarrow> nat \<Rightarrow> vm_error + (syscall_effect \<times> 'm VirtualMachine)" where
  "unhandled_syscall vm syscall_number =
     (if syscall_number = 67339 \<or> syscall_number = 0x10001 then
        (if \<not> m_is_storage vm then
           Inr (RemoteResume (storage_ipre_permanent (m_config vm))
                  (rdi (regs (m_machine vm))) (rsi (regs (m_machine vm))), vm)
         else Inl (RuntimeError ''sys_remote_resume should *NOT* be called from storage VM''))
      else if syscall_number = 0x10002 then
        (if m_is_storage vm then Inr (Paused, stop (vm\<lparr>m_waiting_for_requests := True\<rparr>))
         else Inl (RuntimeError ''sys_wait_for_storage_task_paused should *ONLY* be called from storage VM''))
      else
        Inr (Unhandled (if m_is_storage vm then '' (storage)''
                        else '' (request '' @ show_nat (unat (m_reqid vm)) @ '')''), vm))"

text \<open>
  The functions of the guest library (api/libkvmserverguest.c).  Each stub takes its two arguments in
  \<open>rdi\<close> and \<open>rsi\<close>, puts its number into \<open>eax\<close>, which clears the upper half of \<open>rax\<close>, and gives it to the
  hypervisor with \<open>OUT\<close>; the hypervisor does not know the numbers and calls the handler.
\<close>

definition guest_stub :: "u32 \<Rightarrow> u64 \<Rightarrow> u64 \<Rightarrow> 'm VirtualMachine \<Rightarrow> vm_error + (syscall_effect \<times> 'm VirtualMachine)" where
  "guest_stub number a b vm =
     unhandled_syscall (set_registers (\<lambda>r. r\<lparr>rdi := a, rsi := b, rax := ucast number\<rparr>) vm) (unat number)"

definition kvmserverguest_remote_resume ::
  "u64 \<Rightarrow> u64 \<Rightarrow> 'm VirtualMachine \<Rightarrow> vm_error + (syscall_effect \<times> 'm VirtualMachine)" where
  "kvmserverguest_remote_resume buffer len = guest_stub 0x10001 buffer len"

definition kvmserverguest_storage_wait_paused ::
  "u64 \<Rightarrow> u64 \<Rightarrow> 'm VirtualMachine \<Rightarrow> vm_error + (syscall_effect \<times> 'm VirtualMachine)" where
  "kvmserverguest_storage_wait_paused req len = guest_stub 0x10002 req len"

text \<open>
  A request program resumes the storage program with the buffer it passes, the storage program pauses
  and waits, and neither can make the call of the other.
\<close>

lemma guest_library_calls:
  "\<not> m_is_storage vm \<Longrightarrow> \<exists>vm'. kvmserverguest_remote_resume buffer len vm =
     Inr (RemoteResume (storage_ipre_permanent (m_config vm)) buffer len, vm')"
  "m_is_storage vm \<Longrightarrow> \<exists>vm'. kvmserverguest_storage_wait_paused req len vm = Inr (Paused, vm') \<and>
     m_waiting_for_requests vm' \<and> stopped (m_machine vm')"
  "isl (kvmserverguest_remote_resume buffer len vm) \<longleftrightarrow> m_is_storage vm"
  "isl (kvmserverguest_storage_wait_paused req len vm) \<longleftrightarrow> \<not> m_is_storage vm"
  by (simp_all add: kvmserverguest_remote_resume_def kvmserverguest_storage_wait_paused_def guest_stub_def
      unhandled_syscall_def set_registers_def stop_def)

section \<open>Socket callbacks\<close>

definition connect_socket_callback :: "path_checks \<Rightarrow> 'm VirtualMachine \<Rightarrow> sockaddr_storage \<Rightarrow> bool" where
  "connect_socket_callback checks vm addr =
     (if ss_family addr = AF_UNIX then
        is_writable_path checks (sun_path addr) \<and> is_readable_path checks (sun_path addr)
      else validate_network_access addr (allowed_connect_ipv4 (m_config vm)) (allowed_connect_ipv6 (m_config vm)))"

definition bind_socket_callback :: "path_checks \<Rightarrow> 'm VirtualMachine \<Rightarrow> sockaddr_storage \<Rightarrow> bool" where
  "bind_socket_callback checks vm addr =
     (if ss_family addr = AF_UNIX then
        is_writable_path checks (sun_path addr) \<and> is_readable_path checks (sun_path addr)
      else validate_network_access addr (allowed_listen_ipv4 (m_config vm)) (allowed_listen_ipv6 (m_config vm)))"

text \<open>\<open>sockname\<close> is what \<open>getsockname\<close> gives for the descriptor, \<open>None\<close> when it fails.\<close>

definition validate_listener ::
  "path_checks \<Rightarrow> 'm VirtualMachine \<Rightarrow> sockaddr_storage option \<Rightarrow> vm_error + bool" where
  "validate_listener checks vm sockname =
     (case sockname of
        None \<Rightarrow> Inl (RuntimeError ''getsockname() failed'')
      | Some addr \<Rightarrow>
          if ss_family addr = AF_UNIX then
            Inr (is_writable_path checks (sun_path addr) \<and> is_readable_path checks (sun_path addr))
          else Inr (validate_network_access addr (allowed_listen_ipv4 (m_config vm))
                      (allowed_listen_ipv6 (m_config vm))))"

section \<open>What a guest gets through\<close>

text \<open>
  The file callbacks of a machine, on its table of allowed paths, and the decisions for a guest: a slot
  without a callback lets everything through, a file by its own name.  \<open>cwd\<close> is the current directory,
  which the guest may have changed since the constructor set it.
\<close>

definition guest_opens_writable :: "'m VirtualMachine \<Rightarrow> string \<Rightarrow> string \<Rightarrow> bool \<times> string" where
  "guest_opens_writable vm cwd path =
     (if open_writable_hook (m_fds vm) = NoHook then (True, path)
      else open_writable (allowed_paths (m_config vm)) cwd path)"

definition guest_opens_readable :: "'m VirtualMachine \<Rightarrow> string \<Rightarrow> string \<Rightarrow> bool \<times> string" where
  "guest_opens_readable vm cwd path =
     (if open_readable_hook (m_fds vm) = NoHook then (True, path)
      else open_readable (allowed_paths (m_config vm)) cwd path)"

definition guest_connects :: "path_checks \<Rightarrow> 'm VirtualMachine \<Rightarrow> sockaddr_storage \<Rightarrow> bool" where
  "guest_connects checks vm addr \<longleftrightarrow>
     connect_socket_hook (m_fds vm) = NoHook \<or> connect_socket_callback checks vm addr"

definition guest_binds :: "path_checks \<Rightarrow> 'm VirtualMachine \<Rightarrow> sockaddr_storage \<Rightarrow> bool" where
  "guest_binds checks vm addr \<longleftrightarrow>
     bind_socket_hook (m_fds vm) = NoHook \<or> bind_socket_callback checks vm addr"

text \<open>A machine whose files and addresses are guarded: each of the four slots has its callback.\<close>

definition guards :: "'m VirtualMachine \<Rightarrow> hook list" where
  "guards vm = [open_writable_hook (m_fds vm), open_readable_hook (m_fds vm),
     connect_socket_hook (m_fds vm), bind_socket_hook (m_fds vm)]"

definition guarded :: "'m VirtualMachine \<Rightarrow> bool" where
  "guarded vm \<longleftrightarrow> list_all (\<lambda>h. h \<noteq> NoHook) (guards vm)"

lemma guarded_decisions:
  assumes "guarded vm"
  shows "guest_opens_writable vm cwd path = open_writable (allowed_paths (m_config vm)) cwd path"
    and "guest_opens_readable vm cwd path = open_readable (allowed_paths (m_config vm)) cwd path"
    and "guest_connects checks vm addr = connect_socket_callback checks vm addr"
    and "guest_binds checks vm addr = bind_socket_callback checks vm addr"
  using assms
  by (simp_all add: guarded_def guards_def guest_opens_writable_def guest_opens_readable_def
      guest_connects_def guest_binds_def)

lemma guards_new_machine: "new_machine k ld binary config is_storage = Inr vm \<Longrightarrow> guarded vm"
  by (auto simp: new_machine_def then_do_Inr_iff guarded_def guards_def)

lemma guards_new_fork: "new_fork k other reqid is_storage = Inr vm \<Longrightarrow> guarded other \<Longrightarrow> guarded vm"
  by (auto simp: new_fork_def fork_fds_def then_do_Inr_iff guarded_def guards_def Let_def split: if_splits)

section \<open>The polling system call\<close>

definition SYS_poll :: nat where "SYS_poll = 7"
definition SYS_epoll_wait :: nat where "SYS_epoll_wait = 232"
definition SYS_accept4 :: nat where "SYS_accept4 = 288"

text \<open>The number of the system call that is done again.\<close>

definition restart_poll_syscall :: "'m VirtualMachine \<Rightarrow> vm_error + nat" where
  "restart_poll_syscall vm =
     (case m_poll_method vm of
        Poll \<Rightarrow> Inr SYS_poll
      | Epoll \<Rightarrow> Inr SYS_epoll_wait
      | Blocking \<Rightarrow> Inr SYS_accept4
      | Undefined \<Rightarrow> Inl (RuntimeError ''VM does not have a known polling method''))"

section \<open>The contract of the socket callbacks\<close>

text \<open>
  The three socket callbacks decide alike: a unix socket needs its path to be writable and readable,
  any other address needs an entry of the allow lists of its direction.
\<close>

locale socket_policy =
  fixes check :: "sockaddr_storage \<Rightarrow> bool"
    and can_write :: "string \<Rightarrow> bool" and can_read :: "string \<Rightarrow> bool"
    and ipv4 :: "sockaddr_storage list" and ipv6 :: "sockaddr_storage list"
  assumes unix_socket: "ss_family addr = AF_UNIX \<Longrightarrow>
      check addr \<longleftrightarrow> can_write (sun_path addr) \<and> can_read (sun_path addr)"
    and other_socket: "ss_family addr \<noteq> AF_UNIX \<Longrightarrow> check addr \<longleftrightarrow> validate_network_access addr ipv4 ipv6"
begin

lemma unknown_family_refused:
  assumes "ss_family addr \<notin> {AF_UNIX, AF_INET, AF_INET6, AF_UNSPEC}"
  shows "\<not> check addr"
  using assms other_socket [of addr] by (simp add: validate_network_access_def)

lemma nothing_listed_refused:
  assumes "ipv4 = []" "ipv6 = []" "ss_family addr \<noteq> AF_UNIX"
  shows "\<not> check addr"
  using other_socket [OF assms(3)] by (simp add: assms(1,2) validate_nothing)

lemma decision:
  "check addr \<longleftrightarrow>
     (if ss_family addr = AF_UNIX then can_write (sun_path addr) \<and> can_read (sun_path addr)
      else if ss_family addr = AF_INET then \<exists>a \<in> set ipv4. allows_ipv4 addr a
      else (ss_family addr = AF_INET6 \<or> ss_family addr = AF_UNSPEC) \<and> (\<exists>a \<in> set ipv6. allows_ipv6 addr a))"
  using unix_socket [of addr] other_socket [of addr]
  by (auto simp: validate_network_access_def list_ex_iff)

end

interpretation connect: socket_policy "connect_socket_callback checks vm" "is_writable_path checks"
  "is_readable_path checks" "allowed_connect_ipv4 (m_config vm)" "allowed_connect_ipv6 (m_config vm)"
  for checks and vm :: "'m VirtualMachine"
  by unfold_locales (simp_all add: connect_socket_callback_def)

interpretation bind: socket_policy "bind_socket_callback checks vm" "is_writable_path checks"
  "is_readable_path checks" "allowed_listen_ipv4 (m_config vm)" "allowed_listen_ipv6 (m_config vm)"
  for checks and vm :: "'m VirtualMachine"
  by unfold_locales (simp_all add: bind_socket_callback_def)

interpretation listen: socket_policy "\<lambda>addr. validate_listener checks vm (Some addr) = Inr True"
  "is_writable_path checks" "is_readable_path checks"
  "allowed_listen_ipv4 (m_config vm)" "allowed_listen_ipv6 (m_config vm)"
  for checks and vm :: "'m VirtualMachine"
  by unfold_locales (simp_all add: validate_listener_def)

text \<open>
  The listener check agrees with the bind callback, so a socket bound before the check cannot listen
  where binding would have been refused.
\<close>

lemma validate_listener_bind:
  "validate_listener checks vm (Some addr) = Inr (bind_socket_callback checks vm addr)"
  by (simp add: validate_listener_def bind_socket_callback_def)

section \<open>An example hypervisor\<close>

text \<open>
  A hypervisor whose memory is a number and whose forks copy the machine.  A reset copies the machine
  too, but its registers only when the options ask for it.
\<close>

definition zero_options :: MachineOptions where
  "zero_options = \<lparr>max_mem = 0, max_cow_mem = 0, stack_size = 0, opt_dylink_address_hint = 0,
     opt_heap_address_hint = 0, vmem_base_address = 0, remappings = [], verbose_loader = False,
     opt_hugepages = False, master_direct_memory_writes = False, opt_split_hugepages = False,
     opt_executable_heap = False, opt_mmap_backed_files = False, snapshot_file = [],
     hugepages_arena_size = 0, reset_free_work_mem = 0, reset_copy_all_registers = False,
     reset_keep_all_work_memory = False\<rparr>"

definition example_machine_state :: "nat machine" where
  "example_machine_state = \<lparr>regs = \<lparr>rax = 0, rip = 4096, rflags = 0, rcx = 0, r11 = 0, rdi = 0, rsi = 0\<rparr>,
     memory = 7, stopped = False, cow_memory = None, linux_setup = None, remote = None, remote_serializer = False,
     verbose_system_calls = False, verbose_mmap = False, verbose_threads = False\<rparr>"

definition example_kvm :: "nat tinykvm" where
  "example_kvm = \<lparr>default_options = zero_options,
     is_dynamic_elf = (\<lambda>_. \<lparr>is_dynamic = False, has_interpreter = False\<rparr>),
     create_machine = (\<lambda>_ _. Inr example_machine_state), fork_machine = (\<lambda>m _. Inr m),
     reset_machine = (\<lambda>m master options.
       Inr (if reset_copy_all_registers options then master else master\<lparr>regs := regs m\<rparr>)),
     max_address = (\<lambda>_. 0)\<rparr>"

end
