(* ===== verification/Boot.thy ===== *)
theory Boot
  imports VirtualMachine
begin

text \<open>
  The master machine while its program starts (vm.cpp, warmup.cpp): the callbacks of \<open>initialize\<close> and
  \<open>warmup\<close>, what a run of the machine does, and what \<open>initialize\<close> does before and after the program runs.
  As for forks, what the guest does is an arbitrary list of events, one for each callback the hypervisor
  invokes.
\<close>

section \<open>The callbacks of \<open>initialize\<close>\<close>

text \<open>\<open>listening_socket_callback\<close>: the socket is tracked when it may listen.\<close>

definition boot_listening ::
  "path_checks \<Rightarrow> int \<Rightarrow> int \<Rightarrow> sockaddr_storage option \<Rightarrow> 'm VirtualMachine \<Rightarrow> vm_error + (bool \<times> 'm VirtualMachine)" where
  "boot_listening checks vfd fd sockname vm =
     then_do (validate_listener checks vm sockname) (\<lambda>ok.
       if \<not> ok then Inr (False, vm)
       else Inr (True, vm\<lparr>m_tracked_client_vfd := vfd, m_tracked_client_fd := fd\<rparr>))"

text \<open>The machine stops and waits for requests; the callback answers that the call is not made.\<close>

definition wait_with :: "PollMethod \<Rightarrow> 'm VirtualMachine \<Rightarrow> bool \<times> 'm VirtualMachine" where
  "wait_with method vm = (False, stop (vm\<lparr>m_poll_method := method, m_waiting_for_requests := True\<rparr>))"

text \<open>\<open>epoll_fds\<close> is the descriptors in the epoll set the guest waits on.\<close>

definition boot_epoll_wait :: "int list \<Rightarrow> 'm VirtualMachine \<Rightarrow> bool \<times> 'm VirtualMachine" where
  "boot_epoll_wait epoll_fds vm =
     (if m_tracked_client_vfd vm \<noteq> - 1 then
        (if m_tracked_client_vfd vm \<notin> set epoll_fds then (True, vm) else wait_with Epoll vm)
      else (True, vm))"

text \<open>The loop over the array of \<open>pollfd\<close>, by the descriptors in it.\<close>

fun poll_scan :: "int list \<Rightarrow> 'm VirtualMachine \<Rightarrow> bool \<times> 'm VirtualMachine" where
  "poll_scan [] vm = (True, vm)"
| "poll_scan (fd # fds) vm = (if fd = m_tracked_client_vfd vm then wait_with Poll vm else poll_scan fds vm)"

definition boot_poll :: "int list \<Rightarrow> 'm VirtualMachine \<Rightarrow> bool \<times> 'm VirtualMachine" where
  "boot_poll fds vm = (if m_tracked_client_vfd vm \<noteq> - 1 then poll_scan fds vm else (True, vm))"

text \<open>\<open>fdflags\<close> is the result of \<open>fcntl(fd, F_GETFL)\<close>; \<open>SOCK_NONBLOCK\<close> is bit 11.\<close>

definition boot_accept :: "int \<Rightarrow> u32 \<Rightarrow> 'm VirtualMachine \<Rightarrow> bool \<times> 'm VirtualMachine" where
  "boot_accept vfd fdflags vm =
     (if m_tracked_client_vfd vm \<noteq> - 1 \<and> m_poll_method vm = Undefined then
        (if vfd = m_tracked_client_vfd vm then
           (if bit fdflags 11 then (True, vm) else wait_with Blocking vm)
         else (True, vm))
      else (True, vm))"

section \<open>The callbacks of \<open>warmup\<close>\<close>

text \<open>The two local variables the callbacks of \<open>warmup\<close> share.\<close>

record warmup_locals =
  freed_sockets :: int
  accepted_sockets :: "int list"

definition NUM_WARMUP_THREADS :: int where
  "NUM_WARMUP_THREADS = 1"

definition warmed_up :: "warmup_locals \<Rightarrow> 'm VirtualMachine \<Rightarrow> bool" where
  "warmed_up ws vm \<longleftrightarrow>
     NUM_WARMUP_THREADS * uint (warmup_connect_requests (m_config vm)) \<le> freed_sockets ws"

definition warmup_accept_socket :: "int \<Rightarrow> warmup_locals \<Rightarrow> int \<times> warmup_locals" where
  "warmup_accept_socket managed ws = (managed, ws\<lparr>accepted_sockets := List.insert managed (accepted_sockets ws)\<rparr>)"

definition warmup_free_fd :: "int \<Rightarrow> warmup_locals \<Rightarrow> bool \<times> warmup_locals" where
  "warmup_free_fd vfd ws =
     (False,
      if vfd \<in> set (accepted_sockets ws) then
        ws\<lparr>accepted_sockets := removeAll vfd (accepted_sockets ws), freed_sockets := freed_sockets ws + 1\<rparr>
      else ws)"

text \<open>\<open>epoll_wait_callback\<close> and \<open>poll_callback\<close> are the same.\<close>

definition warmup_poll :: "warmup_locals \<Rightarrow> 'm VirtualMachine \<Rightarrow> bool \<times> 'm VirtualMachine" where
  "warmup_poll ws vm =
     (if warmed_up ws vm then (False, stop (vm\<lparr>m_waiting_for_requests := True\<rparr>)) else (True, vm))"

definition warmup_accept :: "warmup_locals \<Rightarrow> 'm VirtualMachine \<Rightarrow> bool \<times> 'm VirtualMachine" where
  "warmup_accept ws vm =
     (if m_poll_method vm = Blocking \<and> warmed_up ws vm
      then (False, stop (vm\<lparr>m_waiting_for_requests := True\<rparr>)) else (True, vm))"

section \<open>Events of the master\<close>

datatype 'm boot_event =
    Listening int int "sockaddr_storage option"
  | EpollWait "int list"
  | PollCall "int list"
  | AcceptOn int u32
  | NewSocket int
  | ClosedFd int
  | BootSyscall nat
  | BootWork registers 'm
  | Fault vm_error

text \<open>
  The callback in the slot decides; an empty slot lets the call through.  A fault of the guest or a
  timeout is an exception of the hypervisor.
\<close>

definition boot_event ::
  "path_checks \<Rightarrow> 'm boot_event \<Rightarrow> warmup_locals \<times> 'm VirtualMachine \<Rightarrow> vm_error + (warmup_locals \<times> 'm VirtualMachine)" where
  "boot_event checks e = (\<lambda>(ws, vm).
     case e of
       Listening vfd fd sockname \<Rightarrow>
         (case listening_socket_hook (m_fds vm) of
            BootHook \<Rightarrow> then_do (boot_listening checks vfd fd sockname vm) (\<lambda>(_, vm). Inr (ws, vm))
          | ConstructorHook \<Rightarrow> then_do (validate_listener checks vm sockname) (\<lambda>_. Inr (ws, vm))
          | _ \<Rightarrow> Inr (ws, vm))
     | EpollWait epoll_fds \<Rightarrow>
         (case epoll_wait_hook (m_fds vm) of
            BootHook \<Rightarrow> Inr (ws, snd (boot_epoll_wait epoll_fds vm))
          | WarmupHook \<Rightarrow> Inr (ws, snd (warmup_poll ws vm))
          | _ \<Rightarrow> Inr (ws, vm))
     | PollCall fds \<Rightarrow>
         (case poll_hook (m_fds vm) of
            BootHook \<Rightarrow> Inr (ws, snd (boot_poll fds vm))
          | WarmupHook \<Rightarrow> Inr (ws, snd (warmup_poll ws vm))
          | _ \<Rightarrow> Inr (ws, vm))
     | AcceptOn vfd fdflags \<Rightarrow>
         (case accept_hook (m_fds vm) of
            BootHook \<Rightarrow> Inr (ws, snd (boot_accept vfd fdflags vm))
          | WarmupHook \<Rightarrow> Inr (ws, snd (warmup_accept ws vm))
          | _ \<Rightarrow> Inr (ws, vm))
     | NewSocket managed \<Rightarrow>
         (if accept_socket_hook (m_fds vm) = WarmupHook then Inr (snd (warmup_accept_socket managed ws), vm)
          else Inr (ws, vm))
     | ClosedFd vfd \<Rightarrow>
         (if free_fd_hook (m_fds vm) = WarmupHook then Inr (snd (warmup_free_fd vfd ws), vm)
          else Inr (ws, vm))
     | BootSyscall nr \<Rightarrow> then_do (unhandled_syscall vm nr) (\<lambda>(_, vm). Inr (ws, vm))
     | BootWork r m \<Rightarrow> Inr (ws, vm\<lparr>m_machine := (m_machine vm)\<lparr>regs := r, memory := m\<rparr>\<rparr>)
     | Fault err \<Rightarrow> Inl err)"

text \<open>
  \<open>machine().run\<close>: until the machine is stopped, the program ends or something throws, which leaves the
  state as it is.
\<close>

fun run_events ::
  "path_checks \<Rightarrow> 'm boot_event list \<Rightarrow> warmup_locals \<times> 'm VirtualMachine \<Rightarrow> vm_error option \<times> warmup_locals \<times> 'm VirtualMachine" where
  "run_events checks [] s = (None, s)"
| "run_events checks (e # es) s =
     (if stopped (m_machine (snd s)) then (None, s)
      else case boot_event checks e s of Inl err \<Rightarrow> (Some err, s) | Inr s \<Rightarrow> run_events checks es s)"

definition machine_run ::
  "path_checks \<Rightarrow> 'm boot_event list \<Rightarrow> warmup_locals \<times> 'm VirtualMachine \<Rightarrow> vm_error option \<times> warmup_locals \<times> 'm VirtualMachine" where
  "machine_run checks es = (\<lambda>(ws, vm). run_events checks es (ws, vm\<lparr>m_machine := (m_machine vm)\<lparr>stopped := False\<rparr>\<rparr>))"

text \<open>A run outside \<open>warmup\<close>, with whatever its local variables were.\<close>

definition guest_run ::
  "path_checks \<Rightarrow> warmup_locals \<Rightarrow> 'm boot_event list \<Rightarrow> 'm VirtualMachine \<Rightarrow> vm_error option \<times> 'm VirtualMachine" where
  "guest_run checks ws es vm = (case machine_run checks es (ws, vm) of (r, _, vm) \<Rightarrow> (r, vm))"

definition new_locals :: warmup_locals where
  "new_locals = \<lparr>freed_sockets = 0, accepted_sockets = []\<rparr>"

section \<open>Initialisation\<close>

text \<open>The arguments and the environment of the program.\<close>

definition program_arguments :: "DynamicElf \<Rightarrow> 'm VirtualMachine \<Rightarrow> string list" where
  "program_arguments dyn_elf vm =
     (if has_interpreter dyn_elf then
        [''/lib64/ld-linux-x86-64.so.2'',
         if m_is_storage vm then storage_filename (m_config vm) else main_filename (m_config vm)]
      else [vm_name vm])
     @ (if m_is_storage vm then storage_arguments (m_config vm) else main_arguments (m_config vm))"

definition program_environment :: "'m VirtualMachine \<Rightarrow> string list" where
  "program_environment vm = environ (m_config vm) @ [''KVM_NAME='' @ vm_name vm]"

text \<open>
  Everything before the program runs.  The two operations of the hypervisor in it, \<open>prepare_copy_on_write\<close>
  and \<open>setup_linux\<close>, are taken to succeed: an exception of theirs is not modelled.
\<close>

definition prepare_boot :: "'m tinykvm \<Rightarrow> 'm VirtualMachine \<Rightarrow> 'm VirtualMachine" where
  "prepare_boot k vm =
     (let vm = vm\<lparr>m_machine := (m_machine vm)\<lparr>cow_memory := Some (max_main_memory (m_config vm))\<rparr>\<rparr>;
          dyn_elf = is_dynamic_elf k (m_original_binary vm);
          vm = vm\<lparr>m_binary_type := (if has_interpreter dyn_elf then Dynamic
                                    else if is_dynamic dyn_elf then StaticPie else Static)\<rparr>;
          vm = vm\<lparr>m_machine := (m_machine vm)\<lparr>linux_setup :=
                    Some (program_arguments dyn_elf vm, program_environment vm)\<rparr>\<rparr>
      in vm\<lparr>m_fds := (m_fds vm)\<lparr>listening_socket_hook := BootHook, epoll_wait_hook := BootHook,
                               poll_hook := BootHook, accept_hook := BootHook\<rparr>\<rparr>)"

text \<open>
  Everything after the warm-up: the callbacks are removed, and the machine leaves the system call it was
  stopped in, by a \<open>SYSRET\<close> with \<open>EINTR\<close> in a program that is forked, past the \<open>OUT\<close> instruction in a
  storage program.
\<close>

definition finish_boot :: "bool \<Rightarrow> 'm VirtualMachine \<Rightarrow> 'm VirtualMachine" where
  "finish_boot just_one_vm vm =
     (let vm = vm\<lparr>m_fds := (m_fds vm)\<lparr>accept_socket_hook := NoHook, free_fd_hook := NoHook,
                     epoll_wait_hook := NoHook, poll_hook := NoHook, accept_hook := NoHook,
                     preempt_epoll_wait := False\<rparr>\<rparr>
      in if \<not> just_one_vm \<and> \<not> m_is_storage vm then
           (let vm = set_registers (\<lambda>r. r\<lparr>rip := rcx r, rflags := r11 r, rax := - 4\<rparr>) vm
            in vm\<lparr>m_machine := (m_machine vm)\<lparr>cow_memory := Some 0\<rparr>\<rparr>)
         else if m_is_storage vm then set_registers (\<lambda>r. r\<lparr>rip := rip r + 2\<rparr>) vm
         else vm)"

definition install_warmup :: "'m VirtualMachine \<Rightarrow> 'm VirtualMachine" where
  "install_warmup vm = vm\<lparr>m_fds := (m_fds vm)\<lparr>accept_socket_hook := WarmupHook, free_fd_hook := WarmupHook,
     epoll_wait_hook := WarmupHook, poll_hook := WarmupHook, accept_hook := WarmupHook\<rparr>\<rparr>"

section \<open>What the callbacks keep\<close>

text \<open>
  \<open>sock_names\<close> is the address of each real descriptor during the whole start.  A listening event reports
  that address and a virtual descriptor that is not negative.  A program that closes a socket and gets the
  same real descriptor again for a socket with another address is thus left out; the code does not forget
  a tracked socket when it is closed during the start.
\<close>

fun boot_event_ok :: "(int \<Rightarrow> sockaddr_storage option) \<Rightarrow> 'm boot_event \<Rightarrow> bool" where
  "boot_event_ok sock_names (Listening vfd fd sockname) \<longleftrightarrow> 0 \<le> vfd \<and> sockname = sock_names fd"
| "boot_event_ok sock_names _ \<longleftrightarrow> True"

text \<open>
  A program that is not a storage program waits only after it polled on a tracked socket, and a tracked
  socket has passed the listener check.
\<close>

definition boot_inv :: "path_checks \<Rightarrow> (int \<Rightarrow> sockaddr_storage option) \<Rightarrow> 'm VirtualMachine \<Rightarrow> bool" where
  "boot_inv checks sock_names vm \<longleftrightarrow> \<not> m_is_storage vm \<and>
     listening_socket_hook (m_fds vm) = BootHook \<and>
     (WarmupHook \<in> {epoll_wait_hook (m_fds vm), poll_hook (m_fds vm), accept_hook (m_fds vm)} \<longrightarrow>
        m_poll_method vm \<noteq> Undefined) \<and>
     (m_waiting_for_requests vm \<longrightarrow> m_poll_method vm \<noteq> Undefined) \<and>
     (m_poll_method vm \<noteq> Undefined \<longrightarrow> m_tracked_client_vfd vm \<noteq> - 1) \<and>
     (m_tracked_client_vfd vm \<noteq> - 1 \<longrightarrow>
        validate_listener checks vm (sock_names (m_tracked_client_fd vm)) = Inr True)"

inductive boot_step ::
  "path_checks \<Rightarrow> (int \<Rightarrow> sockaddr_storage option) \<Rightarrow> warmup_locals \<times> 'm VirtualMachine \<Rightarrow> warmup_locals \<times> 'm VirtualMachine \<Rightarrow> bool"
  for checks sock_names where
  "\<not> stopped (m_machine vm) \<Longrightarrow> boot_event_ok sock_names e \<Longrightarrow> boot_event checks e (ws, vm) = Inr s' \<Longrightarrow>
    boot_step checks sock_names (ws, vm) s'"

lemma validate_listener_cong:
  "m_config vm' = m_config vm \<Longrightarrow> validate_listener checks vm' a = validate_listener checks vm a"
  by (simp add: validate_listener_def split: option.splits)

lemma unhandled_syscall_main:
  assumes "\<not> m_is_storage vm" "unhandled_syscall vm nr = Inr (eff, vm')"
  shows "vm' = vm"
  using assms by (auto simp: unhandled_syscall_def split: if_splits)

lemma poll_scan_cases: "poll_scan fds vm = (True, vm) \<or> poll_scan fds vm = wait_with Poll vm"
  by (induction fds) auto

lemmas boot_callback_defs = boot_epoll_wait_def boot_poll_def boot_accept_def wait_with_def stop_def
  warmup_poll_def warmup_accept_def

text \<open>What the polling callbacks do: nothing, or stop and wait.\<close>

inductive polls :: "'m VirtualMachine \<Rightarrow> 'm VirtualMachine \<Rightarrow> bool" for vm where
  "polls vm vm"
| "m_tracked_client_vfd vm \<noteq> - 1 \<Longrightarrow> method \<noteq> Undefined \<Longrightarrow> polls vm (snd (wait_with method vm))"
| "m_poll_method vm \<noteq> Undefined \<Longrightarrow> polls vm (stop (vm\<lparr>m_waiting_for_requests := True\<rparr>))"

lemmas polls_intros = polls.intros

lemma warmup_hook_polls:
  assumes "boot_inv checks sock_names vm"
  shows "epoll_wait_hook (m_fds vm) = WarmupHook \<Longrightarrow> m_poll_method vm \<noteq> Undefined"
    and "poll_hook (m_fds vm) = WarmupHook \<Longrightarrow> m_poll_method vm \<noteq> Undefined"
    and "accept_hook (m_fds vm) = WarmupHook \<Longrightarrow> m_poll_method vm \<noteq> Undefined"
  using assms by (simp_all add: boot_inv_def)

lemma polls_inv:
  assumes "boot_inv checks sock_names vm" "polls vm vm'"
  shows "boot_inv checks sock_names vm'"
proof -
  have "m_config vm' = m_config vm" using assms(2) by cases (simp_all add: wait_with_def stop_def)
  note cong = validate_listener_cong [OF this]
  from assms(2) show ?thesis
    using assms(1) cong by cases (simp_all add: boot_inv_def wait_with_def stop_def)
qed

lemma boot_listening_cases:
  assumes "boot_listening checks vfd fd sockname vm = Inr (b, vm')"
  shows "vm' = vm \<or> validate_listener checks vm sockname = Inr True \<and>
    vm' = vm\<lparr>m_tracked_client_vfd := vfd, m_tracked_client_fd := fd\<rparr>"
proof (cases "validate_listener checks vm sockname")
  case (Inr ok)
  then show ?thesis using assms by (cases ok) (simp_all add: boot_listening_def)
qed (use assms in \<open>simp add: boot_listening_def\<close>)

text \<open>The three polling calls do no more than that, also under the callbacks of \<open>warmup\<close>.\<close>

lemma polling_event_polls:
  assumes inv: "boot_inv checks sock_names vm" and step: "boot_event checks e (ws, vm) = Inr (ws', vm')"
    and e: "e = EpollWait fds \<or> e = PollCall fds \<or> e = AcceptOn vfd fdflags"
  shows "polls vm vm'"
proof -
  have boot: "polls vm (snd (boot_epoll_wait fds vm))" "polls vm (snd (boot_accept vfd fdflags vm))"
      "polls vm (snd (boot_poll fds vm))"
    using poll_scan_cases [of fds vm] by (auto simp: boot_epoll_wait_def boot_accept_def boot_poll_def polls_intros)
  have warm: "polls vm (snd (warmup_poll ws vm))" "polls vm (snd (warmup_accept ws vm))"
    if "m_poll_method vm \<noteq> Undefined"
    using that by (simp_all add: warmup_poll_def warmup_accept_def polls_intros)
  from e show ?thesis
  proof (elim disjE)
    assume "e = EpollWait fds"
    then show ?thesis using step boot warm warmup_hook_polls(1) [OF inv]
      by (cases "epoll_wait_hook (m_fds vm)") (auto simp: boot_event_def polls_intros)
  next
    assume "e = PollCall fds"
    then show ?thesis using step boot warm warmup_hook_polls(2) [OF inv]
      by (cases "poll_hook (m_fds vm)") (auto simp: boot_event_def polls_intros)
  next
    assume "e = AcceptOn vfd fdflags"
    then show ?thesis using step boot warm warmup_hook_polls(3) [OF inv]
      by (cases "accept_hook (m_fds vm)") (auto simp: boot_event_def polls_intros)
  qed
qed

lemma listening_event_inv:
  assumes inv: "boot_inv checks sock_names vm" and "boot_event_ok sock_names (Listening vfd fd sockname)"
    and step: "boot_event checks (Listening vfd fd sockname) (ws, vm) = Inr (ws', vm')"
  shows "boot_inv checks sock_names vm'"
proof -
  obtain b where b: "boot_listening checks vfd fd (sock_names fd) vm = Inr (b, vm')" "0 \<le> vfd"
    using assms by (auto simp: boot_event_def boot_inv_def then_do_Inr_iff)
  then consider "vm' = vm"
    | "validate_listener checks vm (sock_names fd) = Inr True" "0 \<le> vfd"
      "vm' = vm\<lparr>m_tracked_client_vfd := vfd, m_tracked_client_fd := fd\<rparr>"
    using boot_listening_cases [OF b(1)] by blast
  then show ?thesis
  proof cases
    case 2
    have "validate_listener checks vm' a = validate_listener checks vm a" for a
      using 2(3) by (intro validate_listener_cong) simp
    with 2 inv show ?thesis by (simp add: boot_inv_def)
  qed (use inv in simp)
qed

lemma boot_event_inv:
  assumes inv: "boot_inv checks sock_names vm" and ok: "boot_event_ok sock_names e"
    and step: "boot_event checks e (ws, vm) = Inr (ws', vm')"
  shows "boot_inv checks sock_names vm'"
proof (cases e)
  case (Listening vfd fd sockname)
  then show ?thesis using listening_event_inv [OF inv] ok step by blast
next
  case (BootSyscall nr)
  then obtain eff where "unhandled_syscall vm nr = Inr (eff, vm')"
    using step by (auto simp: boot_event_def then_do_Inr_iff)
  then show ?thesis using inv unhandled_syscall_main [of vm nr eff vm'] by (simp add: boot_inv_def)
next
  case (BootWork r m)
  then have vm': "vm' = vm\<lparr>m_machine := (m_machine vm)\<lparr>regs := r, memory := m\<rparr>\<rparr>"
    using step by (simp add: boot_event_def)
  then have "validate_listener checks vm' a = validate_listener checks vm a" for a
    by (intro validate_listener_cong) simp
  with inv show ?thesis by (simp add: boot_inv_def vm')
qed (use inv step polls_inv [OF inv] polling_event_polls [OF inv step] in \<open>auto simp: boot_event_def split: if_splits\<close>)

interpretation boot_system: step_system "\<lambda>s. boot_inv checks sock_names (snd s)"
  "boot_step checks sock_names" "\<lambda>s. boot_inv checks sock_names (snd s)"
  for checks and sock_names
proof unfold_locales
  show "boot_inv checks sock_names (snd s')"
    if "boot_inv checks sock_names (snd s)" "boot_step checks sock_names s s'" for s s' :: "warmup_locals \<times> 'm VirtualMachine"
    using that(2,1) by cases (cases s', auto intro: boot_event_inv)
qed

text \<open>A property that every event keeps is kept by a run, also by one that ends with an exception.\<close>

lemma run_events_keeps:
  assumes "run_events checks es s = (r, s')" "P s"
    and "\<And>e s s'. e \<in> set es \<Longrightarrow> \<not> stopped (m_machine (snd s)) \<Longrightarrow> P s \<Longrightarrow> boot_event checks e s = Inr s' \<Longrightarrow> P s'"
  shows "P s'"
  using assms
proof (induction es arbitrary: s)
  case (Cons e es)
  show ?case
  proof (cases "boot_event checks e s")
    case (Inr t)
    show ?thesis
    proof (cases "stopped (m_machine (snd s))")
      case False
      then have run: "run_events checks es t = (r, s')" using Cons.prems(1) Inr by simp
      have "P t" by (rule Cons.prems(3) [OF _ False Cons.prems(2) Inr]) simp
      then show ?thesis by (rule Cons.IH [OF run]) (erule (3) Cons.prems(3) [OF list.set_intros(2)])
    qed (use Cons.prems in simp)
  qed (use Cons.prems in \<open>simp split: if_splits\<close>)
qed simp

lemma run_events_steps:
  assumes "run_events checks es s = (r, s')" "list_all (boot_event_ok sock_names) es"
  shows "(boot_step checks sock_names)\<^sup>*\<^sup>* s s'"
proof (rule run_events_keeps [OF assms(1)])
  fix e t t'
  assume t: "e \<in> set es" "\<not> stopped (m_machine (snd t))" "(boot_step checks sock_names)\<^sup>*\<^sup>* s t"
    "boot_event checks e t = Inr t'"
  have "boot_event_ok sock_names e" using t(1) assms(2) by (simp add: list_all_iff)
  then have "boot_step checks sock_names t t'"
    using boot_step.intros [of "snd t" sock_names e checks "fst t" t'] t(2,4) by simp
  with t(3) show "(boot_step checks sock_names)\<^sup>*\<^sup>* s t'" by simp
qed simp

lemma machine_run_inv:
  assumes "machine_run checks es (ws, vm) = (r, ws', vm')" "list_all (boot_event_ok sock_names) es"
    and "boot_inv checks sock_names vm"
  shows "boot_inv checks sock_names vm'"
proof -
  let ?vm = "vm\<lparr>m_machine := (m_machine vm)\<lparr>stopped := False\<rparr>\<rparr>"
  have "(boot_step checks sock_names)\<^sup>*\<^sup>* (ws, ?vm) (ws', vm')"
    using assms(1,2) by (intro run_events_steps) (simp_all add: machine_run_def)
  moreover have "boot_inv checks sock_names ?vm"
    using assms(3) validate_listener_cong [of ?vm vm] by (simp add: boot_inv_def)
  ultimately show ?thesis using boot_system.steps_inv [of checks sock_names "(ws, ?vm)"] by fastforce
qed

text \<open>A machine made by the constructor for a program, just before it boots.\<close>

lemma prepare_boot_inv:
  assumes "new_machine k ld binary config False = Inr vm"
  shows "boot_inv checks sock_names (prepare_boot k vm)"
  using assms by (auto simp: new_machine_def then_do_Inr_iff prepare_boot_def Let_def boot_inv_def new_fds_def)

lemma finish_boot_fields:
  "m_waiting_for_requests (finish_boot b vm) = m_waiting_for_requests vm"
  "m_poll_method (finish_boot b vm) = m_poll_method vm"
  "m_tracked_client_vfd (finish_boot b vm) = m_tracked_client_vfd vm"
  "m_tracked_client_fd (finish_boot b vm) = m_tracked_client_fd vm"
  "m_config (finish_boot b vm) = m_config vm"
  "m_is_storage (finish_boot b vm) = m_is_storage vm"
  "m_original_binary (finish_boot b vm) = m_original_binary vm"
  by (simp_all add: finish_boot_def Let_def set_registers_def)

lemma restart_poll_defined: "m_poll_method vm \<noteq> Undefined \<Longrightarrow> \<exists>nr. restart_poll_syscall vm = Inr nr"
  by (cases "m_poll_method vm") (auto simp: restart_poll_syscall_def)

section \<open>The configuration, the binary and the guards never change\<close>

definition same_program :: "'m VirtualMachine \<Rightarrow> 'm VirtualMachine \<Rightarrow> bool" where
  "same_program vm vm' \<longleftrightarrow> m_config vm' = m_config vm \<and> m_original_binary vm' = m_original_binary vm \<and>
     guards vm' = guards vm"

lemma same_program_refl: "same_program vm vm"
  by (simp add: same_program_def)

lemma same_program_trans: "same_program a b \<Longrightarrow> same_program b c \<Longrightarrow> same_program a c"
  by (simp add: same_program_def)

lemma same_program_guarded: "same_program vm vm' \<Longrightarrow> guarded vm' = guarded vm"
  by (simp add: same_program_def guarded_def)

lemma boot_event_same_program:
  assumes "boot_event checks e (ws, vm) = Inr (ws', vm')"
  shows "same_program vm vm'"
proof (cases e)
  case (Listening vfd fd sockname)
  then have "vm' = vm \<or> (\<exists>b. boot_listening checks vfd fd sockname vm = Inr (b, vm'))"
    using assms by (cases "listening_socket_hook (m_fds vm)") (auto simp: boot_event_def then_do_Inr_iff)
  then show ?thesis using boot_listening_cases [of checks vfd fd sockname vm _ vm'] by (auto simp: same_program_def guards_def)
next
  case (EpollWait fds)
  then show ?thesis
    using assms by (cases "epoll_wait_hook (m_fds vm)") (auto simp: boot_event_def boot_callback_defs same_program_def guards_def)
next
  case (PollCall fds)
  then show ?thesis
    using assms poll_scan_cases [of fds vm]
    by (cases "poll_hook (m_fds vm)") (auto simp: boot_event_def boot_callback_defs same_program_def guards_def)
next
  case (AcceptOn vfd fl)
  then show ?thesis
    using assms by (cases "accept_hook (m_fds vm)") (auto simp: boot_event_def boot_callback_defs same_program_def guards_def)
next
  case (BootSyscall nr)
  then show ?thesis
    using assms by (auto simp: boot_event_def then_do_Inr_iff unhandled_syscall_def stop_def same_program_def guards_def
        split: if_splits)
qed (use assms in \<open>auto simp: boot_event_def same_program_def guards_def split: if_splits\<close>)

lemma machine_run_same_program:
  assumes "machine_run checks es (ws, vm) = (r, ws', vm')"
  shows "same_program vm vm'"
proof -
  let ?vm = "vm\<lparr>m_machine := (m_machine vm)\<lparr>stopped := False\<rparr>\<rparr>"
  have "same_program vm (snd (ws', vm'))"
  proof (rule run_events_keeps [where P = "\<lambda>s. same_program vm (snd s)"])
    show "run_events checks es (ws, ?vm) = (r, ws', vm')" using assms by (simp add: machine_run_def)
  qed (auto simp: same_program_def guards_def dest: boot_event_same_program)
  then show ?thesis by simp
qed

lemma prepare_boot_same_program: "same_program vm (prepare_boot k vm)"
  by (simp add: same_program_def guards_def prepare_boot_def Let_def)

lemma finish_boot_same_program: "same_program vm (finish_boot b vm)"
  by (simp add: same_program_def guards_def finish_boot_def Let_def set_registers_def)

lemma install_warmup_same_program: "same_program vm (install_warmup (vm\<lparr>m_waiting_for_requests := w\<rparr>))"
  by (simp add: same_program_def guards_def install_warmup_def)

lemma new_machine_program:
  "new_machine k ld binary config s = Inr vm \<Longrightarrow> m_config vm = config \<and> m_original_binary vm = binary"
  by (auto simp: new_machine_def then_do_Inr_iff)

section \<open>The warm-up counts connections\<close>

definition closed_fds :: "'m boot_event list \<Rightarrow> nat" where
  "closed_fds es = length (filter (\<lambda>e. case e of ClosedFd _ \<Rightarrow> True | _ \<Rightarrow> False) es)"

definition new_sockets :: "'m boot_event list \<Rightarrow> nat" where
  "new_sockets es = length (filter (\<lambda>e. case e of NewSocket _ \<Rightarrow> True | _ \<Rightarrow> False) es)"

lemma length_removeAll_member: "x \<in> set xs \<Longrightarrow> length (removeAll x xs) < length xs"
  by (induction xs) (auto simp: less_Suc_eq_le)

lemma boot_event_counts:
  assumes "boot_event checks e (ws, vm) = Inr (ws', vm')"
  shows "freed_sockets ws' \<le> freed_sockets ws + int (closed_fds [e]) \<and>
    freed_sockets ws' + int (length (accepted_sockets ws')) \<le>
      freed_sockets ws + int (length (accepted_sockets ws)) + int (new_sockets [e]) \<and>
    freed_sockets ws \<le> freed_sockets ws'"
proof (cases e)
  case (NewSocket m)
  then have "ws' = ws \<or> ws' = snd (warmup_accept_socket m ws)"
    using assms by (auto simp: boot_event_def split: if_splits)
  then show ?thesis
    using NewSocket by (auto simp: closed_fds_def new_sockets_def warmup_accept_socket_def List.insert_def)
next
  case (ClosedFd vfd)
  then have "ws' = ws \<or> ws' = snd (warmup_free_fd vfd ws)"
    using assms by (auto simp: boot_event_def split: if_splits)
  then show ?thesis
    using ClosedFd length_removeAll_member [of vfd "accepted_sockets ws"]
    by (auto simp: closed_fds_def new_sockets_def warmup_free_fd_def)
next
  case (Listening vfd fd sockname)
  then have "ws' = ws"
    using assms by (cases "listening_socket_hook (m_fds vm)") (auto simp: boot_event_def then_do_Inr_iff)
  then show ?thesis using Listening by (simp add: closed_fds_def new_sockets_def)
next
  case (EpollWait fds)
  then have "ws' = ws" using assms by (cases "epoll_wait_hook (m_fds vm)") (auto simp: boot_event_def)
  then show ?thesis using EpollWait by (simp add: closed_fds_def new_sockets_def)
next
  case (PollCall fds)
  then have "ws' = ws" using assms by (cases "poll_hook (m_fds vm)") (auto simp: boot_event_def)
  then show ?thesis using PollCall by (simp add: closed_fds_def new_sockets_def)
next
  case (AcceptOn vfd fl)
  then have "ws' = ws" using assms by (cases "accept_hook (m_fds vm)") (auto simp: boot_event_def)
  then show ?thesis using AcceptOn by (simp add: closed_fds_def new_sockets_def)
qed (use assms in \<open>auto simp: boot_event_def then_do_Inr_iff closed_fds_def new_sockets_def\<close>)

lemma run_events_counts:
  assumes "run_events checks es (ws, vm) = (r, ws', vm')"
  shows "freed_sockets ws' \<le> freed_sockets ws + int (closed_fds es) \<and>
    freed_sockets ws' + int (length (accepted_sockets ws')) \<le>
      freed_sockets ws + int (length (accepted_sockets ws)) + int (new_sockets es)"
  using assms
proof (induction es arbitrary: ws vm)
  case Nil
  then show ?case by (simp add: closed_fds_def new_sockets_def)
next
  case (Cons e es)
  have split: "closed_fds (e # es) = closed_fds [e] + closed_fds es"
    "new_sockets (e # es) = new_sockets [e] + new_sockets es"
    by (simp_all add: closed_fds_def new_sockets_def)
  consider "ws' = ws"
    | w v where "boot_event checks e (ws, vm) = Inr (w, v)" "run_events checks es (w, v) = (r, ws', vm')"
    using Cons.prems by (cases "boot_event checks e (ws, vm)") (auto split: if_splits)
  then show ?case
  proof cases
    case (2 w v)
    show ?thesis
      using boot_event_counts [OF 2(1)] Cons.IH [OF 2(2)] unfolding split by linarith
  qed simp
qed

text \<open>While the callbacks of \<open>warmup\<close> are installed, a program waits only when enough sockets were freed.\<close>

definition warmup_waiting :: "warmup_locals \<times> 'm VirtualMachine \<Rightarrow> bool" where
  "warmup_waiting = (\<lambda>(ws, vm). \<not> m_is_storage vm \<and> epoll_wait_hook (m_fds vm) = WarmupHook \<and>
     poll_hook (m_fds vm) = WarmupHook \<and> accept_hook (m_fds vm) = WarmupHook \<and>
     (m_waiting_for_requests vm \<longrightarrow> warmed_up ws vm))"

lemma warmed_up_cong:
  "m_config vm' = m_config vm \<Longrightarrow> freed_sockets ws \<le> freed_sockets ws' \<Longrightarrow> warmed_up ws vm \<Longrightarrow> warmed_up ws' vm'"
  by (simp add: warmed_up_def)

lemma boot_event_warmup_waiting:
  assumes inv: "warmup_waiting (ws, vm)" and step: "boot_event checks e (ws, vm) = Inr (ws', vm')"
  shows "warmup_waiting (ws', vm')"
proof -
  have le: "freed_sockets ws \<le> freed_sockets ws'" using boot_event_counts [OF step] by simp
  have waiting: "vm' = vm \<or> (\<exists>r m. vm' = vm\<lparr>m_machine := (m_machine vm)\<lparr>regs := r, memory := m\<rparr>\<rparr>) \<or>
      (\<exists>a b. vm' = vm\<lparr>m_tracked_client_vfd := a, m_tracked_client_fd := b\<rparr>) \<or>
      warmed_up ws vm \<and> vm' = stop (vm\<lparr>m_waiting_for_requests := True\<rparr>)"
  proof (cases e)
    case (Listening vfd fd sockname)
    then have "vm' = vm \<or> (\<exists>b. boot_listening checks vfd fd sockname vm = Inr (b, vm'))"
      using step by (cases "listening_socket_hook (m_fds vm)") (auto simp: boot_event_def then_do_Inr_iff)
    then show ?thesis using boot_listening_cases [of checks vfd fd sockname vm _ vm'] by blast
  next
    case (BootSyscall nr)
    then obtain eff where "unhandled_syscall vm nr = Inr (eff, vm')"
      using step by (auto simp: boot_event_def then_do_Inr_iff)
    then show ?thesis using inv unhandled_syscall_main [of vm nr eff vm'] by (simp add: warmup_waiting_def)
  qed (use inv step in \<open>auto simp: boot_event_def warmup_waiting_def warmup_poll_def warmup_accept_def
      split: if_splits\<close>)
  then have "m_config vm' = m_config vm" by (auto simp: stop_def)
  from warmed_up_cong [OF this le] waiting show ?thesis
    using inv by (auto simp: warmup_waiting_def stop_def)
qed

text \<open>
  A run under the callbacks of \<open>warmup\<close> after which the program waits has accepted and closed as many
  connections as the configuration asks for.
\<close>

lemma warmup_run_serves:
  assumes "machine_run checks es (new_locals, install_warmup (vm\<lparr>m_waiting_for_requests := False\<rparr>)) = (r, ws, vm')"
    and "m_waiting_for_requests vm'" "\<not> m_is_storage vm"
  shows "unat (warmup_connect_requests (m_config vm')) \<le> new_sockets es"
    "unat (warmup_connect_requests (m_config vm')) \<le> closed_fds es"
proof -
  let ?vm = "install_warmup (vm\<lparr>m_waiting_for_requests := False\<rparr>)"
  let ?run = "?vm\<lparr>m_machine := (m_machine ?vm)\<lparr>stopped := False\<rparr>\<rparr>"
  have run: "run_events checks es (new_locals, ?run) = (r, ws, vm')"
    using assms(1) by (simp add: machine_run_def)
  have "warmup_waiting (new_locals, ?run)" using assms(3) by (simp add: warmup_waiting_def install_warmup_def)
  then have "warmup_waiting (ws, vm')"
    using run_events_keeps [where P = warmup_waiting, OF run] boot_event_warmup_waiting by (metis surj_pair)
  then have "int (unat (warmup_connect_requests (m_config vm'))) \<le> freed_sockets ws"
    using assms(2) by (simp add: warmup_waiting_def warmed_up_def NUM_WARMUP_THREADS_def)
  moreover have "freed_sockets ws \<le> int (closed_fds es)" "freed_sockets ws \<le> int (new_sockets es)"
    using run_events_counts [OF run] by (auto simp: new_locals_def)
  ultimately show "unat (warmup_connect_requests (m_config vm')) \<le> new_sockets es"
    "unat (warmup_connect_requests (m_config vm')) \<le> closed_fds es"
    by linarith+
qed

section \<open>The environment of the guest\<close>

text \<open>
  C28: Only what the command line names reaches the environment of a program that is started: each string
  given to \<open>setup_linux\<close> comes from \<open>--env\<close>, is a variable of the host that some \<open>--allow-env\<close> value names
  (every one with \<open>--allow-all\<close>), is the default user, or is \<open>KVM_NAME\<close> with the file name of the program.
  The \<open>--env\<close> values, the host variables named by a wildcard or by \<open>--allow-all\<close> and \<open>KVM_NAME\<close> are all
  there, and there always is a user.
\<close>

theorem guest_sees_only_allowed_variables:
  assumes "from_args h cli config = Inr (written, c)" "m_config vm = c"
  shows "\<exists>args envp. linux_setup (m_machine (prepare_boot k vm)) = Some (args, envp) \<and>
    (\<forall>x \<in> set envp. x \<in> set (environ config) \<or> x = ''USER=nobody'' \<or> x = ''KVM_NAME='' @ vm_name vm \<or>
       x \<in> set (host_environ h) \<and> (allow_all cli \<or> (\<exists>name \<in> set (allow_env cli). env_matches name x))) \<and>
    set (environ config) \<union> {''KVM_NAME='' @ vm_name vm} \<subseteq> set envp \<and>
    (\<forall>name \<in> set (allow_env cli). last name = CHR ''*'' \<longrightarrow>
       set (filter (env_matches name) (host_environ h)) \<subseteq> set envp) \<and>
    (allow_all cli \<longrightarrow> set (host_environ h) \<subseteq> set envp) \<and> list_ex (prefix ''USER='') envp"
proof -
  note env = guest_environ_strings [OF from_args_fields(2) [OF assms(1)]]
  have names: "set (allow_env (apply_allow_all cli)) = set (allow_env cli) \<union> (if allow_all cli then {''*''} else {})"
    by (simp add: apply_allow_all_def)
  have all: "env_matches ''*'' x" for x by (simp add: env_matches_def)
  have "linux_setup (m_machine (prepare_boot k vm)) = Some (program_arguments (is_dynamic_elf k (m_original_binary vm))
      vm, environ c @ [''KVM_NAME='' @ vm_name vm])"
    using assms(2)
    by (simp add: prepare_boot_def program_environment_def program_arguments_def vm_name_def Let_def)
  moreover have "x \<in> set (host_environ h) \<and> (allow_all cli \<or> (\<exists>name \<in> set (allow_env cli). env_matches name x))"
    if "x \<in> set (environ c)" "x \<notin> set (environ config)" "x \<noteq> ''USER=nobody''" for x
    using env that unfolding names by (auto split: if_splits)
  moreover have "set (host_environ h) \<subseteq> set (environ c)" if "allow_all cli"
    using env that all unfolding names by fastforce
  ultimately show ?thesis using env unfolding names by auto
qed

section \<open>Examples\<close>

text \<open>A program that may listen on every IPv4 address and is warmed up with one connection.\<close>

definition listen_config :: Configuration where
  "listen_config = default_configuration\<lparr>main_filename := ''/srv/app'', ephemeral := True,
     warmup_connect_requests := 1, allowed_listen_ipv4 := [sockaddr_zero]\<rparr>"

definition example_sock_names :: "int \<Rightarrow> sockaddr_storage option" where
  "example_sock_names fd = (if fd = 3 then Some (set_field 0 AF_INET sockaddr_zero) else None)"

definition no_path_checks :: path_checks where
  "no_path_checks = \<lparr>is_writable_path = (\<lambda>_. False), is_readable_path = (\<lambda>_. False)\<rparr>"

definition booting :: "nat VirtualMachine" where
  "booting = projr (new_machine example_kvm [] example_binary listen_config False)"

definition boot_events :: "nat boot_event list" where
  "boot_events = [EpollWait [4], Listening 4 3 (example_sock_names 3), EpollWait [4], ClosedFd 4]"

definition warmup_events :: "nat boot_event list" where
  "warmup_events = [EpollWait [4], NewSocket 7, ClosedFd 7, EpollWait [4]]"

lemma booting_new: "new_machine example_kvm [] example_binary listen_config False = Inr booting"
proof -
  have "\<not> isl (new_machine example_kvm [] example_binary listen_config False)" by code_simp
  then show ?thesis unfolding booting_def by (cases "new_machine example_kvm [] example_binary listen_config False") auto
qed

lemma example_events_ok:
  "list_all (boot_event_ok example_sock_names) boot_events"
  "list_all (boot_event_ok example_sock_names) warmup_events"
  by (simp_all add: boot_events_def warmup_events_def)

text \<open>The same program once it has booted.\<close>

definition warm_vm :: "nat VirtualMachine" where
  "warm_vm = booting\<lparr>m_poll_method := Epoll, m_tracked_client_vfd := 4\<rparr>"

theorem guest_sees_only_allowed_variables_witness:
  "\<exists>w c args envp. from_args example_machine example_cli example_start = Inr (w, c) \<and>
    linux_setup (m_machine (prepare_boot example_kvm (booting\<lparr>m_config := c\<rparr>))) = Some (args, envp) \<and>
    set envp \<subseteq> {''HOME=/root'', ''USER=nobody'', ''KVM_NAME='' @ main_filename c}"
proof -
  obtain w c where c: "from_args example_machine example_cli example_start = Inr (w, c)"
    using example_accepted(1) by blast
  have "m_is_storage vm = storage" if "new_machine k ld b conf storage = Inr vm"
    for k :: "nat tinykvm" and ld b conf storage vm
    using that by (auto simp: new_machine_def then_do_Inr_iff)
  from this [OF booting_new] have "\<not> m_is_storage booting" by simp
  then have name: "vm_name (booting\<lparr>m_config := c\<rparr>) = main_filename c" by (simp add: vm_name_def)
  have config: "environ example_start = []" "host_environ example_machine = [''HOME=/root'']"
    by (simp_all add: example_start_def default_configuration_def example_machine_def)
  have "m_config (booting\<lparr>m_config := c\<rparr>) = c" by simp
  from guest_sees_only_allowed_variables [OF c this, of example_kvm] c show ?thesis
    unfolding name config by fastforce
qed

end
