(* ===== verification/WarmupClient.thy ===== *)
theory WarmupClient
  imports Boot
begin

text \<open>
  The client that sends requests to the program while it is warmed up (warmup.cpp): its connections, its
  threads, and \<open>warmup\<close> as a whole.  What the sockets answer is an arbitrary script; a call that
  waits for data that never comes does not return, so an operation that waits gives \<open>None\<close> then.
\<close>

section \<open>One connection\<close>

text \<open>
  The answers on one connection: of \<open>socket\<close>, of \<open>connect\<close>, of the \<open>send\<close> of each request by its number,
  and of the calls of \<open>recv\<close> in turn, as long as there is one.
\<close>

record connection_script =
  socket_result :: int
  connect_result :: int
  send_result :: "nat \<Rightarrow> int"
  recv_results :: "int list"

text \<open>
  The static variables of the client, with the sockets it has open, the requests it has sent on each
  connection, and its threads, by number.
\<close>

record warmup_client =
  open_sockets :: "int list"
  sent_requests :: "string list list"
  warmup_thread_completed :: int
  warmup_thread_stop_please :: bool
  joinable_threads :: "nat list"

definition crlf :: string where
  "crlf = [CHR 0x0D, CHR 0x0A]"

definition request_text :: "string \<Rightarrow> bool \<Rightarrow> string" where
  "request_text path last_one =
     ''GET '' @ path @ '' HTTP/1.1'' @ crlf @ ''Host: localhost'' @ crlf @
     (if last_one then ''Connection: close'' @ crlf else []) @ crlf"

text \<open>
  The loop over the requests, with the number of those that are left and the result of the last \<open>recv\<close>.
  It gives the requests sent, that result and the answers that are left.
\<close>

fun send_loop ::
  "string \<Rightarrow> nat \<Rightarrow> nat \<Rightarrow> (nat \<Rightarrow> int) \<Rightarrow> int list \<Rightarrow> int \<Rightarrow> (string list \<times> int \<times> int list) option" where
  "send_loop path requests 0 sends recvs bytes = Some ([], bytes, recvs)"
| "send_loop path requests (Suc left) sends recvs bytes =
     (let i = requests - Suc left; request = request_text path (requests = i + 1)
      in if sends i < 0 then Some ([], bytes, recvs)
         else
           case recvs of
             [] \<Rightarrow> None
           | b # recvs \<Rightarrow>
               if b < 0 then Some ([request], b, recvs)
               else if b = 0 then Some ([request], b, recvs)
               else map_option (\<lambda>(sent, r). (request # sent, r)) (send_loop path requests left sends recvs b))"

text \<open>The loop that reads until the connection is closed.\<close>

fun drain :: "int \<Rightarrow> int list \<Rightarrow> int list option" where
  "drain bytes [] = (if 0 < bytes then None else Some [])"
| "drain bytes (b # recvs) = (if 0 < bytes then drain b recvs else Some (b # recvs))"

text \<open>\<open>intra_connect_requests\<close> is an \<open>int\<close> made of a 16-bit number.\<close>

definition connect_and_send_requests ::
  "Configuration \<Rightarrow> connection_script \<Rightarrow> warmup_client \<Rightarrow> (bool \<times> warmup_client) option" where
  "connect_and_send_requests config s cl =
     (let sockfd = socket_result s
      in if sockfd < 0 then Some (False, cl)
         else
           let cl = cl\<lparr>open_sockets := sockfd # open_sockets cl\<rparr>; closed = remove1 sockfd (open_sockets cl)
           in if connect_result s < 0 then Some (False, cl\<lparr>open_sockets := closed\<rparr>)
              else
                let n = unat (warmup_intra_connect_requests config)
                in case send_loop (warmup_path config) n n (send_result s) (recv_results s) 0 of
                     None \<Rightarrow> None
                   | Some (sent, bytes, recvs) \<Rightarrow>
                       (case drain bytes recvs of
                          None \<Rightarrow> None
                        | Some _ \<Rightarrow>
                            Some (True, cl\<lparr>open_sockets := closed, sent_requests := sent_requests cl @ [sent],
                                           warmup_thread_completed := warmup_thread_completed cl + 1\<rparr>)))"

section \<open>The threads\<close>

text \<open>
  The environment of the client: whether the address of the listening socket is found and can be
  printed, and for each thread and connection its script and whether the thread sees the stop flag
  after it.
\<close>

record client_env =
  sockname_ok :: bool
  nameinfo_ok :: bool
  scripts :: "nat \<Rightarrow> nat \<Rightarrow> connection_script"
  sees_stop :: "nat \<Rightarrow> nat \<Rightarrow> bool"

text \<open>The loop of a thread from connection \<open>c\<close> on, with the number of connections that are left.\<close>

fun client_loop :: "Configuration \<Rightarrow> client_env \<Rightarrow> nat \<Rightarrow> nat \<Rightarrow> nat \<Rightarrow> warmup_client \<Rightarrow> warmup_client option" where
  "client_loop config env t c 0 cl = Some cl"
| "client_loop config env t c (Suc left) cl =
     (case connect_and_send_requests config (scripts env t c) cl of
        None \<Rightarrow> None
      | Some (ok, cl) \<Rightarrow>
          if \<not> ok then Some cl
          else if sees_stop env t c then Some cl
          else client_loop config env t (Suc c) left cl)"

definition client_thread :: "Configuration \<Rightarrow> client_env \<Rightarrow> nat \<Rightarrow> warmup_client \<Rightarrow> warmup_client option" where
  "client_thread config env t = client_loop config env t 0 (unat (warmup_connect_requests config))"

text \<open>Joining the threads: what each has done when it has ended.\<close>

fun join_threads :: "Configuration \<Rightarrow> client_env \<Rightarrow> nat list \<Rightarrow> warmup_client \<Rightarrow> warmup_client option" where
  "join_threads config env [] cl = Some (cl\<lparr>joinable_threads := []\<rparr>)"
| "join_threads config env (t # ts) cl =
     (case client_thread config env t cl of None \<Rightarrow> None | Some cl \<Rightarrow> join_threads config env ts cl)"

definition begin_warmup_client ::
  "Configuration \<Rightarrow> client_env \<Rightarrow> warmup_client \<Rightarrow> warmup_client option" where
  "begin_warmup_client config env cl =
     (if warmup_connect_requests config = 0 then Some cl
      else if warmup_intra_connect_requests config = 0 then Some cl
      else if \<not> sockname_ok env then Some cl
      else if \<not> nameinfo_ok env then Some cl
      else map_option (\<lambda>cl. cl\<lparr>joinable_threads := joinable_threads cl @ [0..<nat NUM_WARMUP_THREADS]\<rparr>)
             (join_threads config env (joinable_threads cl) cl))"

definition stop_warmup_client :: "Configuration \<Rightarrow> client_env \<Rightarrow> warmup_client \<Rightarrow> warmup_client option" where
  "stop_warmup_client config env cl =
     (let cl = cl\<lparr>warmup_thread_stop_please := True\<rparr>
      in join_threads config env (joinable_threads cl) cl)"

section \<open>The warm-up\<close>

text \<open>
  \<open>warmup\<close>: its callbacks are installed, the client is started, the polling system call is done again and
  the machine runs; the client is joined only when the program waits again.
\<close>

definition warmup ::
  "path_checks \<Rightarrow> client_env \<Rightarrow> 'm boot_event list \<Rightarrow> (warmup_client \<times> 'm VirtualMachine, vm_error, unit) program" where
  "warmup checks env es = (\<lambda>(cl, vm).
     if warmup_connect_requests (m_config vm) = 0 then Some (Inr (), cl, vm)
     else
       let vm = install_warmup (vm\<lparr>m_waiting_for_requests := False\<rparr>)
       in case begin_warmup_client (m_config vm) env cl of
            None \<Rightarrow> None
          | Some cl \<Rightarrow>
              (case restart_poll_syscall vm of
                 Inl err \<Rightarrow> Some (Inl err, cl, vm)
               | Inr _ \<Rightarrow>
                   (case machine_run checks es (new_locals, vm) of
                      (Some err, _, vm) \<Rightarrow> Some (Inl err, cl, vm)
                    | (None, _, vm) \<Rightarrow>
                        if \<not> m_waiting_for_requests vm then
                          Some (Inl (RuntimeError ''The program did not wait for requests after warmup''), cl, vm)
                        else
                          map_option (\<lambda>cl. (Inr (), cl, vm)) (stop_warmup_client (m_config vm) env cl))))"

text \<open>What a warm-up that returns has done: nothing, or a run of the machine between the two ends of the client.\<close>

lemma warmup_cases:
  assumes "warmup checks env es (cl, vm) = Some (r, cl', vm')"
  obtains (none) "warmup_connect_requests (m_config vm) = 0" "r = Inr ()" "cl' = cl" "vm' = vm"
  | (no_poll) err where "warmup_connect_requests (m_config vm) \<noteq> 0" "r = Inl err"
      "begin_warmup_client (m_config vm) env cl = Some cl'" "m_poll_method vm = Undefined"
      "vm' = install_warmup (vm\<lparr>m_waiting_for_requests := False\<rparr>)"
  | (failed) x err ws where "warmup_connect_requests (m_config vm) \<noteq> 0" "r = Inl err"
      "begin_warmup_client (m_config vm) env cl = Some cl'"
      "machine_run checks es (new_locals, install_warmup (vm\<lparr>m_waiting_for_requests := False\<rparr>)) = (x, ws, vm')"
  | (warmed) cl1 ws where "warmup_connect_requests (m_config vm) \<noteq> 0" "r = Inr ()"
      "begin_warmup_client (m_config vm) env cl = Some cl1"
      "machine_run checks es (new_locals, install_warmup (vm\<lparr>m_waiting_for_requests := False\<rparr>)) = (None, ws, vm')"
      "m_waiting_for_requests vm'" "stop_warmup_client (m_config vm') env cl1 = Some cl'"
proof (cases "warmup_connect_requests (m_config vm) = 0")
  case True
  then show thesis using none assms by (simp add: warmup_def)
next
  case False
  let ?vm = "install_warmup (vm\<lparr>m_waiting_for_requests := False\<rparr>)"
  have fields: "m_config ?vm = m_config vm" "m_poll_method ?vm = m_poll_method vm"
    by (simp_all add: install_warmup_def)
  obtain cl1 where cl1: "begin_warmup_client (m_config vm) env cl = Some cl1"
    using assms False by (cases "begin_warmup_client (m_config vm) env cl") (auto simp: warmup_def Let_def fields)
  obtain x ws v where run: "machine_run checks es (new_locals, ?vm) = (x, ws, v)"
    by (cases "machine_run checks es (new_locals, ?vm)")
  show thesis
  proof (cases "restart_poll_syscall ?vm")
    case (Inl err)
    then have "m_poll_method vm = Undefined"
      by (auto simp: restart_poll_syscall_def fields split: PollMethod.splits)
    then show thesis using no_poll [of err] assms False cl1 Inl by (simp add: warmup_def Let_def fields)
  next
    case (Inr nr)
    then show thesis
      using failed [of _ x ws] warmed [of cl1 ws] assms False cl1 run
      by (cases x) (auto simp: warmup_def Let_def fields split: if_splits)
  qed
qed

section \<open>What a connection sends\<close>

text \<open>The requests of a connection: all but the last ask to keep it open.\<close>

definition all_requests :: "string \<Rightarrow> nat \<Rightarrow> string list" where
  "all_requests path n = map (\<lambda>i. request_text path (n = i + 1)) [0..<n]"

lemma all_requests_eq:
  "0 < n \<Longrightarrow> all_requests path n = replicate (n - 1) (request_text path False) @ [request_text path True]"
  by (cases n) (auto simp: all_requests_def map_replicate_const intro!: map_replicate_trivial [symmetric] nth_equalityI)

lemma upt_from_left: "left < n \<Longrightarrow> [n - Suc left..<n] = (n - Suc left) # [n - left..<n]"
  by (simp add: upt_rec [of "n - Suc left"] Suc_diff_Suc)

lemma send_loop_sent_all:
  assumes "send_loop path n (Suc left) sends recvs b = Some (sent, b', recvs')" "left < n"
    and "\<forall>i < n. 0 \<le> sends i" "\<forall>i < left. i < length recvs \<and> 0 < recvs ! i"
  shows "sent = map (\<lambda>i. request_text path (n = i + 1)) [n - Suc left..<n]"
  using assms
proof (induction left arbitrary: recvs b sent)
  case 0
  then have "\<not> sends (n - Suc 0) < 0" by (simp add: not_less)
  then show ?case using 0 by (cases recvs) (auto simp: Let_def upt_from_left split: if_splits)
next
  case (Suc left)
  obtain r rs where recvs: "recvs = r # rs" "0 < r" using Suc.prems(4) by (cases recvs) auto
  have "\<not> sends (n - Suc (Suc left)) < 0" using Suc.prems(2,3) by (simp add: not_less)
  then obtain sent' where sent': "send_loop path n (Suc left) sends rs r = Some (sent', b', recvs')"
      "sent = request_text path (n = (n - Suc (Suc left)) + 1) # sent'"
    using Suc.prems(1) recvs by (auto simp: Let_def simp del: One_nat_def)
  have "sent' = map (\<lambda>i. request_text path (n = i + 1)) [n - Suc left..<n]"
    using Suc.prems recvs(1) by (intro Suc.IH [OF sent'(1)]) auto
  then show ?case using sent'(2) Suc.prems(2) by (simp add: upt_from_left)
qed

section \<open>When a connection ends\<close>

lemma drain_None_iff: "drain bytes recvs = None \<longleftrightarrow> 0 < bytes \<and> (\<forall>r \<in> set recvs. 0 < r)"
  by (induction recvs arbitrary: bytes) auto

text \<open>The two loops one after the other wait for data that never comes.\<close>

definition blocked :: "(string list \<times> int \<times> int list) option \<Rightarrow> bool" where
  "blocked r = (case r of None \<Rightarrow> True | Some (_, bytes, recvs) \<Rightarrow> drain bytes recvs = None)"

lemma blocked_map_option: "blocked (map_option (\<lambda>(sent, r). (f sent, r)) x) = blocked x"
  by (cases x) (auto simp: blocked_def)

lemma blocked_send_loop:
  "0 < bytes \<Longrightarrow> blocked (send_loop path n left sends recvs bytes) \<longleftrightarrow> (\<forall>r \<in> set recvs. 0 < r)"
proof (induction left arbitrary: recvs bytes)
  case (Suc left)
  then show ?case
    by (cases recvs) (auto simp: Let_def blocked_map_option, auto simp: blocked_def drain_None_iff)
qed (simp add: blocked_def drain_None_iff)

lemma blocked_first_send:
  "blocked (send_loop path n (Suc left) sends recvs 0) \<longleftrightarrow> 0 \<le> sends (n - Suc left) \<and> (\<forall>r \<in> set recvs. 0 < r)"
  by (cases recvs) (auto simp: Let_def blocked_map_option blocked_send_loop, auto simp: blocked_def drain_None_iff)

lemma connection_None_iff:
  assumes "warmup_intra_connect_requests config \<noteq> 0"
  shows "connect_and_send_requests config s cl = None \<longleftrightarrow>
    0 \<le> socket_result s \<and> 0 \<le> connect_result s \<and> 0 \<le> send_result s 0 \<and> (\<forall>r \<in> set (recv_results s). 0 < r)"
proof -
  obtain left where n: "unat (warmup_intra_connect_requests config) = Suc left"
    using assms by (metis not0_implies_Suc unat_eq_zero)
  have "connect_and_send_requests config s cl = None \<longleftrightarrow> 0 \<le> socket_result s \<and> 0 \<le> connect_result s \<and>
      blocked (send_loop (warmup_path config) (Suc left) (Suc left) (send_result s) (recv_results s) 0)"
    by (auto simp: connect_and_send_requests_def Let_def n blocked_def simp del: send_loop.simps
        split: option.splits)
  then show ?thesis by (simp add: blocked_first_send del: send_loop.simps)
qed

text \<open>
  C37: A connection of the warm-up client ends exactly when it cannot be made, when its first request cannot
  be sent, or when the program closes it (or it fails) at some time: a program that keeps it open with no
  more data stops the client, and with it the server, for good.
\<close>

theorem connection_ends_iff_peer_closes:
  assumes "warmup_intra_connect_requests config \<noteq> 0"
  shows "(\<exists>ok cl'. connect_and_send_requests config s cl = Some (ok, cl')) \<longleftrightarrow>
    socket_result s < 0 \<or> connect_result s < 0 \<or> send_result s 0 < 0 \<or> (\<exists>r \<in> set (recv_results s). r \<le> 0)"
  using connection_None_iff [OF assms, of s cl] by (auto simp: not_less not_le)

section \<open>What a thread does\<close>

text \<open>A connection on which every request is answered, and that the program closes in the end.\<close>

definition answered :: "Configuration \<Rightarrow> connection_script \<Rightarrow> bool" where
  "answered config s \<longleftrightarrow> 0 \<le> socket_result s \<and> 0 \<le> connect_result s \<and>
     (\<forall>i < unat (warmup_intra_connect_requests config). 0 \<le> send_result s i) \<and>
     (\<forall>i < unat (warmup_intra_connect_requests config) - 1.
        i < length (recv_results s) \<and> 0 < recv_results s ! i) \<and>
     (\<exists>r \<in> set (recv_results s). r \<le> 0)"

lemma answered_connection:
  assumes "answered config s" "warmup_intra_connect_requests config \<noteq> 0"
  shows "connect_and_send_requests config s cl = Some (True,
    cl\<lparr>sent_requests := sent_requests cl @
         [all_requests (warmup_path config) (unat (warmup_intra_connect_requests config))],
       warmup_thread_completed := warmup_thread_completed cl + 1\<rparr>)"
proof -
  obtain left where n: "unat (warmup_intra_connect_requests config) = Suc left"
    using assms(2) by (metis not0_implies_Suc unat_eq_zero)
  let ?loop = "send_loop (warmup_path config) (Suc left) (Suc left) (send_result s) (recv_results s) 0"
  have open_ok: "\<not> socket_result s < 0" "\<not> connect_result s < 0"
    using assms(1) by (simp_all add: answered_def not_less)
  have "connect_and_send_requests config s cl \<noteq> None"
    using connection_None_iff [OF assms(2)] assms(1) by (auto simp: answered_def not_less)
  then obtain sent bytes recvs rest where r: "?loop = Some (sent, bytes, recvs)" "drain bytes recvs = Some rest"
    by (auto simp: connect_and_send_requests_def Let_def n open_ok simp del: send_loop.simps
        split: option.splits)
  have "sent = all_requests (warmup_path config) (Suc left)"
    using send_loop_sent_all [OF r(1)] assms(1) n by (simp add: answered_def all_requests_def del: upt_Suc)
  then show ?thesis
    using r by (simp add: connect_and_send_requests_def Let_def n open_ok del: send_loop.simps)
qed

lemma answered_client_loop:
  assumes "\<forall>i < left. answered config (scripts env t (c + i)) \<and> \<not> sees_stop env t (c + i)"
    and "warmup_intra_connect_requests config \<noteq> 0"
  shows "client_loop config env t c left cl = Some
    (cl\<lparr>sent_requests := sent_requests cl @ replicate left
          (all_requests (warmup_path config) (unat (warmup_intra_connect_requests config))),
        warmup_thread_completed := warmup_thread_completed cl + int left\<rparr>)"
  using assms(1)
proof (induction left arbitrary: c cl)
  case (Suc left)
  have "\<forall>i < left. answered config (scripts env t (Suc c + i)) \<and> \<not> sees_stop env t (Suc c + i)"
    using Suc.prems by (metis Suc_less_eq add_Suc_shift)
  note IH = Suc.IH [OF this]
  have "answered config (scripts env t c)" "\<not> sees_stop env t c" using Suc.prems by force+
  then show ?case by (simp add: answered_connection [OF _ assms(2)] IH)
qed simp

text \<open>
  C36: When the program answers, a thread of the warm-up client sends on each of its connections the
  configured number of requests, the last of which asks to close it, leaves no socket open, and makes as
  many connections as the callbacks of the warm-up wait for.
\<close>

theorem client_sends_what_warmup_waits_for:
  assumes "\<forall>c < unat (warmup_connect_requests config). answered config (scripts env t c) \<and> \<not> sees_stop env t c"
    and "warmup_intra_connect_requests config \<noteq> 0" "m_config vm = config"
  shows "\<exists>cl'. client_thread config env t cl = Some cl' \<and> open_sockets cl' = open_sockets cl \<and>
    sent_requests cl' = sent_requests cl @ replicate (unat (warmup_connect_requests config))
      (replicate (unat (warmup_intra_connect_requests config) - 1) (request_text (warmup_path config) False)
       @ [request_text (warmup_path config) True]) \<and>
    warmed_up \<lparr>freed_sockets = warmup_thread_completed cl' - warmup_thread_completed cl, accepted_sockets = []\<rparr> vm"
proof -
  have "0 < unat (warmup_intra_connect_requests config)"
    using assms(2) by (simp add: unat_gt_0)
  note requests = all_requests_eq [OF this]
  have "client_thread config env t cl = Some
    (cl\<lparr>sent_requests := sent_requests cl @ replicate (unat (warmup_connect_requests config))
          (all_requests (warmup_path config) (unat (warmup_intra_connect_requests config))),
        warmup_thread_completed := warmup_thread_completed cl + int (unat (warmup_connect_requests config))\<rparr>)"
    unfolding client_thread_def using assms(1) by (intro answered_client_loop [OF _ assms(2)]) simp
  then show ?thesis by (simp add: requests warmed_up_def NUM_WARMUP_THREADS_def assms(3))
qed

section \<open>The warm-up and its client together\<close>

lemma begin_starts_thread:
  assumes "warmup_connect_requests config \<noteq> 0" "warmup_intra_connect_requests config \<noteq> 0"
    and "sockname_ok env" "nameinfo_ok env" "joinable_threads cl = []"
  shows "begin_warmup_client config env cl = Some (cl\<lparr>joinable_threads := [0]\<rparr>)"
  using assms by (simp add: begin_warmup_client_def NUM_WARMUP_THREADS_def)

lemma join_threads_joins: "join_threads config env ts cl = Some cl' \<Longrightarrow> joinable_threads cl' = []"
  by (induction ts arbitrary: cl) (auto split: option.splits)

text \<open>
  C38: A warm-up that succeeds has joined its client: no thread is left to join.  A warm-up that fails has
  not: the exception passes the thread that was started, which is then still to be joined when the
  static vector of threads is destroyed at the exit of the server.
\<close>

theorem only_a_successful_warmup_joins_its_client:
  assumes "warmup_connect_requests (m_config vm) \<noteq> 0" "warmup_intra_connect_requests (m_config vm) \<noteq> 0"
    and "sockname_ok env" "nameinfo_ok env" "joinable_threads cl = []"
    and "warmup checks env es (cl, vm) = Some (r, cl', vm')"
  shows "joinable_threads cl' = (if isl r then [0] else [])"
  using assms(6)
proof (cases rule: warmup_cases)
  case (warmed cl1 ws)
  then show ?thesis using join_threads_joins by (auto simp: stop_warmup_client_def Let_def)
qed (use assms(1) begin_starts_thread [OF assms(1-5)] in auto)

text \<open>
  C34: A warm-up that ends normally has really served the configured number of connections: the guest
  has accepted and closed at least that many, and waits for requests again.
\<close>

theorem warmup_serves_configured_connections:
  assumes "warmup checks env es (cl, vm) = Some (Inr (), cl', vm')"
    and "warmup_connect_requests (m_config vm) \<noteq> 0" "\<not> m_is_storage vm"
  shows "m_waiting_for_requests vm' \<and>
    unat (warmup_connect_requests (m_config vm')) \<le> new_sockets es \<and>
    unat (warmup_connect_requests (m_config vm')) \<le> closed_fds es"
  using assms(1)
proof (cases rule: warmup_cases)
  case (warmed cl1 ws)
  then show ?thesis using warmup_run_serves [OF warmed(4,5) assms(3)] by simp
qed (use assms(2) in simp_all)

section \<open>What the warm-up keeps\<close>

lemma warmup_same_program:
  assumes "warmup checks env es (cl, vm) = Some (r, cl', vm')"
  shows "same_program vm vm'"
  using assms
proof (cases rule: warmup_cases)
  case (failed x err ws)
  then show ?thesis
    using same_program_trans [OF install_warmup_same_program machine_run_same_program] by blast
next
  case (warmed cl1 ws)
  then show ?thesis
    using same_program_trans [OF install_warmup_same_program machine_run_same_program] by blast
qed (simp_all add: same_program_refl install_warmup_same_program)

lemma warmup_inv:
  assumes "warmup checks env es (cl, vm) = Some (Inr (), cl', vm')" "list_all (boot_event_ok sock_names) es"
    and "boot_inv checks sock_names vm" "m_waiting_for_requests vm"
  shows "boot_inv checks sock_names vm' \<and> m_waiting_for_requests vm'"
  using assms(1)
proof (cases rule: warmup_cases)
  case (warmed cl1 ws)
  let ?vm = "install_warmup (vm\<lparr>m_waiting_for_requests := False\<rparr>)"
  have "boot_inv checks sock_names ?vm"
    using assms(3,4) validate_listener_cong [of ?vm vm] by (simp add: boot_inv_def install_warmup_def)
  then show ?thesis using machine_run_inv [OF warmed(4) assms(2)] warmed(5) by simp
qed (use assms(3,4) in simp_all)

section \<open>Witnesses\<close>

text \<open>A program that answers two requests on its connection and closes it.\<close>

definition answering :: connection_script where
  "answering = \<lparr>socket_result = 8, connect_result = 0, send_result = (\<lambda>_. 40), recv_results = [120, 120, 0]\<rparr>"

definition answering_env :: client_env where
  "answering_env = \<lparr>sockname_ok = True, nameinfo_ok = True, scripts = (\<lambda>_ _. answering),
     sees_stop = (\<lambda>_ _. False)\<rparr>"

definition idle_client :: warmup_client where
  "idle_client = \<lparr>open_sockets = [], sent_requests = [], warmup_thread_completed = 0,
     warmup_thread_stop_please = False, joinable_threads = []\<rparr>"

definition two_requests :: Configuration where
  "two_requests = listen_config\<lparr>warmup_intra_connect_requests := 2\<rparr>"

lemma two_requests_facts:
  "warmup_connect_requests two_requests = 1" "warmup_intra_connect_requests two_requests = 2"
  by (simp_all add: two_requests_def listen_config_def)

theorem connection_ends_iff_peer_closes_witness:
  "\<exists>ok cl'. connect_and_send_requests two_requests answering idle_client = Some (ok, cl')"
  using connection_ends_iff_peer_closes [of two_requests answering idle_client]
  by (simp add: two_requests_facts answering_def)

theorem client_sends_what_warmup_waits_for_witness:
  "\<exists>cl'. client_thread two_requests answering_env 0 idle_client = Some cl' \<and>
     sent_requests cl' = [[request_text ''/'' False, request_text ''/'' True]]"
proof -
  have "answered two_requests answering"
    by (auto simp: answered_def two_requests_facts answering_def less_Suc_eq)
  then have a: "\<forall>c < unat (warmup_connect_requests two_requests).
      answered two_requests (scripts answering_env 0 c) \<and> \<not> sees_stop answering_env 0 c"
    by (simp add: answering_env_def)
  have i: "warmup_intra_connect_requests two_requests \<noteq> 0" by (simp add: two_requests_facts)
  have c: "m_config (booting\<lparr>m_config := two_requests\<rparr>) = two_requests" by simp
  have "warmup_path two_requests = ''/''"
    by (simp add: two_requests_def listen_config_def default_configuration_def)
  with client_sends_what_warmup_waits_for [OF a i c, of idle_client]
  show ?thesis by (auto simp: two_requests_facts idle_client_def)
qed

theorem only_a_successful_warmup_joins_its_client_witness:
  "\<exists>err cl' vm'. warmup no_path_checks answering_env [] (idle_client, warm_vm) = Some (Inl err, cl', vm') \<and>
     joinable_threads cl' = [0]"
proof -
  have c: "warmup_connect_requests (m_config warm_vm) \<noteq> 0" "warmup_intra_connect_requests (m_config warm_vm) \<noteq> 0"
    by code_simp+
  have e: "sockname_ok answering_env" "nameinfo_ok answering_env" "joinable_threads idle_client = []"
    by (simp_all add: answering_env_def idle_client_def)
  have "case warmup no_path_checks answering_env [] (idle_client, warm_vm) of Some (Inl _, _) \<Rightarrow> True | _ \<Rightarrow> False"
    by code_simp
  then obtain err cl' vm' where w: "warmup no_path_checks answering_env [] (idle_client, warm_vm) = Some (Inl err, cl', vm')"
    by (auto split: option.splits sum.splits)
  from only_a_successful_warmup_joins_its_client [OF c e w] w show ?thesis by auto
qed

lemma example_warmup:
  "\<exists>cl' vm'. warmup no_path_checks answering_env warmup_events (idle_client, warm_vm) = Some (Inr (), cl', vm')"
proof -
  have "case warmup no_path_checks answering_env warmup_events (idle_client, warm_vm) of Some (Inr _, _) \<Rightarrow> True | _ \<Rightarrow> False"
    by code_simp
  then show ?thesis by (auto split: option.splits sum.splits)
qed

theorem warmup_serves_configured_connections_witness:
  "\<exists>cl' vm'. warmup no_path_checks answering_env warmup_events (idle_client, warm_vm) = Some (Inr (), cl', vm') \<and>
     m_waiting_for_requests vm'"
proof -
  obtain cl' vm' where w: "warmup no_path_checks answering_env warmup_events (idle_client, warm_vm) = Some (Inr (), cl', vm')"
    using example_warmup by blast
  have "warmup_connect_requests (m_config warm_vm) \<noteq> 0" "\<not> m_is_storage warm_vm" by code_simp+
  from warmup_serves_configured_connections [OF w this] w show ?thesis by blast
qed

end
