(* ===== verification/Snapshot.thy ===== *)
theory Snapshot
  imports VirtualMachine
begin

text \<open>
  The application's part of a snapshot (vm_state.cpp): \<open>save_state\<close> records how the master polls and the
  socket it listens on, \<open>load_state\<close> makes such a socket again and repairs the epoll sets.  The system
  calls are parameters: what the kernel answers for a descriptor, and whether each call succeeds.
\<close>

section \<open>Data\<close>

record AppSnapshotState =
  poll_method :: PollMethod
  tracked_client_vfd :: int
  backlog :: int
  domain :: int
  sock_kind :: int
  protocol :: int
  flags :: int
  reuseaddr :: int
  addr_len :: nat
  addr :: sockaddr_storage

text \<open>
  What the kernel answers about a socket: the four \<open>getsockopt\<close> values (\<open>None\<close> when the call fails), the
  result of \<open>fcntl(fd, F_GETFL)\<close> and of \<open>getsockname\<close> with the length it stores.
\<close>

record socket_info =
  so_domain :: "int option"
  so_type :: "int option"
  so_protocol :: "int option"
  so_reuseaddr :: "int option"
  fl_flags :: int
  sock_name :: "(sockaddr_storage \<times> nat) option"

text \<open>A socket made by \<open>load_state\<close>: the arguments of the calls on it.\<close>

record new_socket =
  sock_domain :: int
  sock_type :: int
  sock_protocol :: int
  sock_reuseaddr :: int
  sock_flags :: int
  sock_addr :: sockaddr_storage
  sock_addr_len :: nat
  sock_backlog :: int

text \<open>The answers of the kernel to \<open>load_state\<close>: the new descriptor, and which of the calls succeed.\<close>

record kernel_answers =
  new_fd :: int
  setsockopt_ok :: bool
  setfl_ok :: bool
  bind_ok :: bool
  listen_ok :: bool

definition errno_error :: vm_error where
  "errno_error = RuntimeError ''strerror(errno)''"

section \<open>Saving\<close>

definition check_call :: "'a option \<Rightarrow> vm_error + 'a" where
  "check_call r = (case r of None \<Rightarrow> Inl errno_error | Some x \<Rightarrow> Inr x)"

text \<open>
  \<open>now\<close> is the exception of \<open>save_snapshot_state_now\<close>, if any, \<open>area\<close> whether the snapshot has a user area,
  \<open>info\<close> the kernel's view of each descriptor.
\<close>

definition save_state ::
  "vm_error option \<Rightarrow> bool \<Rightarrow> (int \<Rightarrow> socket_info) \<Rightarrow> 'm VirtualMachine \<Rightarrow> vm_error + AppSnapshotState" where
  "save_state now area info vm =
     (if now \<noteq> None then Inl (the now)
      else if \<not> area then Inl (RuntimeError ''snapshot user area is null'')
      else
        let fd = m_tracked_client_fd vm
        in then_do (check_call (so_domain (info fd))) (\<lambda>dom.
           then_do (check_call (so_type (info fd))) (\<lambda>typ.
           then_do (check_call (so_protocol (info fd))) (\<lambda>proto.
           then_do (check_call (so_reuseaddr (info fd))) (\<lambda>reuse.
           if fl_flags (info fd) < 0 then Inl errno_error
           else
             then_do (check_call (sock_name (info fd))) (\<lambda>(name, len).
             Inr \<lparr>poll_method = m_poll_method vm, tracked_client_vfd = m_tracked_client_vfd vm,
                  backlog = 128, domain = dom, sock_kind = typ, protocol = proto, flags = fl_flags (info fd),
                  reuseaddr = reuse, addr_len = len, addr = name\<rparr>))))))"

section \<open>Loading\<close>

text \<open>The socket, made by one call after the other.\<close>

definition restore_socket :: "kernel_answers \<Rightarrow> AppSnapshotState \<Rightarrow> vm_error + (int \<times> new_socket)" where
  "restore_socket ks state =
     (if new_fd ks < 0 then Inl errno_error
      else if \<not> setsockopt_ok ks then Inl errno_error
      else if \<not> setfl_ok ks then Inl errno_error
      else if \<not> bind_ok ks then Inl errno_error
      else if \<not> listen_ok ks then Inl errno_error
      else Inr (new_fd ks,
        \<lparr>sock_domain = domain state, sock_type = sock_kind state, sock_protocol = protocol state,
         sock_reuseaddr = reuseaddr state, sock_flags = flags state, sock_addr = addr state,
         sock_addr_len = addr_len state, sock_backlog = backlog state\<rparr>))"

text \<open>
  An epoll set is its virtual descriptor and the descriptors registered in it, with their events.
  \<open>translate\<close> gives the real descriptor of a virtual one, a negative number when there is none; it is
  called after the new socket was registered.  A call of \<open>epoll_ctl\<close> carries the epoll descriptor, the
  descriptor and the event; its result is ignored.
\<close>

datatype 'e epoll_call = EpollDel int int 'e | EpollAdd int int 'e

type_synonym 'e epoll_set = "int \<times> (int \<times> 'e) list"

definition repair_epoll :: "(int \<Rightarrow> int) \<Rightarrow> int \<Rightarrow> int \<Rightarrow> 'e epoll_set \<Rightarrow> 'e epoll_call list \<times> 'e epoll_set" where
  "repair_epoll translate tracked fd = (\<lambda>(vfd, epoll_fds).
     ((case map_of epoll_fds tracked of
         None \<Rightarrow> []
       | Some event \<Rightarrow>
           (let epoll_fd = translate vfd; old_fd = translate tracked
            in (if 0 \<le> old_fd then [EpollDel epoll_fd old_fd event] else []) @ [EpollAdd epoll_fd fd event])),
      (vfd, filter (\<lambda>e. \<not> translate (fst e) < 0) epoll_fds)))"

text \<open>The machine is the second component of the result, as far as it was changed when something throws.\<close>

definition load_state ::
  "bool \<Rightarrow> kernel_answers \<Rightarrow> (int \<Rightarrow> int) \<Rightarrow> AppSnapshotState \<Rightarrow> 'e epoll_set list \<times> 'm VirtualMachine
   \<Rightarrow> (vm_error + (new_socket \<times> 'e epoll_call list \<times> 'e epoll_set list)) \<times> 'm VirtualMachine" where
  "load_state area ks translate state = (\<lambda>(epolls, vm).
     if \<not> area then (Inl (RuntimeError ''snapshot user area is null''), vm)
     else
       let vm = vm\<lparr>m_poll_method := poll_method state\<rparr>
       in case restore_socket ks state of
            Inl err \<Rightarrow> (Inl err, vm)
          | Inr (fd, sock) \<Rightarrow>
              let vm = vm\<lparr>m_tracked_client_vfd := tracked_client_vfd state, m_tracked_client_fd := fd\<rparr>;
                  translate = translate(tracked_client_vfd state := fd);
                  repaired = map (repair_epoll translate (tracked_client_vfd state) fd) epolls
              in (Inr (sock, concat (map fst repaired), map snd repaired), vm))"

text \<open>A load that succeeds made the socket; the rest is determined by it.\<close>

lemma load_state_returns:
  "load_state area ks translate state (epolls, vm) = (Inr (sock, calls, epolls'), vm') \<longleftrightarrow>
     area \<and> restore_socket ks state = Inr (new_fd ks, sock) \<and>
     (let repaired = map (repair_epoll (translate(tracked_client_vfd state := new_fd ks))
                            (tracked_client_vfd state) (new_fd ks)) epolls
      in calls = concat (map fst repaired) \<and> epolls' = map snd repaired) \<and>
     vm' = vm\<lparr>m_poll_method := poll_method state, m_tracked_client_vfd := tracked_client_vfd state,
              m_tracked_client_fd := new_fd ks\<rparr>"
  by (auto simp: load_state_def restore_socket_def Let_def split: if_splits)

lemma restore_socket_fd: "restore_socket ks state = Inr (fd, sock) \<Longrightarrow> fd = new_fd ks \<and> 0 \<le> fd"
  by (auto simp: restore_socket_def split: if_splits)

section \<open>The epoll sets of the kernel\<close>

text \<open>
  The kernel's registrations: for each open epoll descriptor, the event each registered descriptor is
  watched for.  \<open>epoll_ctl\<close> fails and changes nothing on a descriptor that is not an epoll descriptor, when
  it is to remove a descriptor that is not registered, or to add one that is.
\<close>

type_synonym 'e registrations = "int \<Rightarrow> (int \<rightharpoonup> 'e) option"

fun epoll_ctl :: "'e epoll_call \<Rightarrow> 'e registrations \<Rightarrow> 'e registrations" where
  "epoll_ctl (EpollDel ep fd event) registered =
     (case registered ep of None \<Rightarrow> registered | Some watched \<Rightarrow> registered(ep \<mapsto> watched(fd := None)))"
| "epoll_ctl (EpollAdd ep fd event) registered =
     (case registered ep of
        None \<Rightarrow> registered
      | Some watched \<Rightarrow> if watched fd = None then registered(ep \<mapsto> watched(fd \<mapsto> event)) else registered)"

text \<open>The calls for one set: the new descriptor is registered, whether or not it was before.\<close>

lemma repair_epoll_kernel:
  assumes "translate tracked = fd" "0 \<le> fd"
  shows "fold epoll_ctl (fst (repair_epoll translate tracked fd s)) registered ep =
    (case map_of (snd s) tracked of
       Some event \<Rightarrow> if ep = translate (fst s) then map_option (\<lambda>watched. watched(fd \<mapsto> event)) (registered ep)
                     else registered ep
     | None \<Rightarrow> registered ep)"
  using assms by (cases s) (auto simp: repair_epoll_def Let_def split: option.splits)

lemma repair_epolls_kernel:
  assumes "translate tracked = fd" "0 \<le> fd"
  shows "registered ep = Some watched \<Longrightarrow>
    (let registered' = fold epoll_ctl (concat (map (fst \<circ> repair_epoll translate tracked fd) sets)) registered;
         events = {event. \<exists>s \<in> set sets. translate (fst s) = ep \<and> map_of (snd s) tracked = Some event}
     in if events = {} then registered' ep = Some watched
        else \<exists>event \<in> events. registered' ep = Some (watched(fd \<mapsto> event)))"
proof (induction sets rule: rev_induct)
  case (snoc s sets)
  note last = repair_epoll_kernel [of translate tracked fd, OF assms, of s]
  from snoc show ?case
    by (cases "map_of (snd s) tracked"; cases "ep = translate (fst s)")
      (auto simp: Let_def last split: if_splits)
qed simp

section \<open>Properties\<close>

text \<open>
  Loading what was saved gives back the polling method and the tracked descriptor, and a listening
  socket with the domain, type, protocol, options, flags and address of the one that was saved.
\<close>

lemma load_restores_saved_listener:
  assumes "save_state now True info vm = Inr state"
    and "load_state True ks translate state (epolls, vm0) = (Inr (sock, calls, epolls'), vm')"
  shows "m_poll_method vm' = m_poll_method vm \<and> m_tracked_client_vfd vm' = m_tracked_client_vfd vm \<and>
    m_tracked_client_fd vm' = new_fd ks \<and> 0 \<le> new_fd ks \<and>
    (let old = info (m_tracked_client_fd vm) in
       so_domain old = Some (sock_domain sock) \<and> so_type old = Some (sock_type sock) \<and>
       so_protocol old = Some (sock_protocol sock) \<and> so_reuseaddr old = Some (sock_reuseaddr sock) \<and>
       fl_flags old = sock_flags sock \<and> sock_name old = Some (sock_addr sock, sock_addr_len sock))"
  using assms
  by (auto simp: save_state_def load_state_returns restore_socket_def check_call_def Let_def then_do_Inr_iff
      split: if_splits option.splits)

text \<open>
  C40: What loading does to the epoll sets.  In the guest's sets every descriptor left is backed by a
  real one, and no backed one is lost.  In the kernel, once the calls of \<open>epoll_ctl\<close> are made in their
  order, the new socket is registered in every open epoll descriptor that belongs to a set that watched
  the listener, with an event such a set has for it and also when the number was registered before; the
  other registrations there, and all those of the other epoll descriptors, are as they were.
\<close>

theorem load_repairs_epoll_sets:
  assumes "load_state True ks translate state (epolls, vm) = (Inr (sock, calls, epolls'), vm')"
    and "translate' = translate(tracked_client_vfd state := new_fd ks)"
    and "events = (\<lambda>ep. {event. \<exists>s \<in> set epolls. translate' (fst s) = ep \<and>
           map_of (snd s) (tracked_client_vfd state) = Some event})"
  shows "map fst epolls' = map fst epolls \<and>
    (\<forall>i < length epolls. snd (epolls' ! i) = filter (\<lambda>e. 0 \<le> translate' (fst e)) (snd (epolls ! i))) \<and>
    (\<forall>registered ep watched. registered ep = Some watched \<longrightarrow>
       (if events ep = {} then fold epoll_ctl calls registered ep = Some watched
        else \<exists>event \<in> events ep. fold epoll_ctl calls registered ep = Some (watched(new_fd ks \<mapsto> event))))"
proof -
  let ?r = "repair_epoll translate' (tracked_client_vfd state) (new_fd ks)"
  from assms(1,2) have fd: "translate' (tracked_client_vfd state) = new_fd ks" "0 \<le> new_fd ks"
    and sets: "epolls' = map (snd \<circ> ?r) epolls" and calls: "calls = concat (map (fst \<circ> ?r) epolls)"
    by (auto simp: load_state_returns Let_def dest: restore_socket_fd)
  have "map fst epolls' = map fst epolls"
    by (auto simp: sets repair_epoll_def split: prod.splits)
  moreover have "snd (epolls' ! i) = filter (\<lambda>e. 0 \<le> translate' (fst e)) (snd (epolls ! i))"
    if "i < length epolls" for i
    using that by (cases "epolls ! i") (simp add: sets repair_epoll_def not_less)
  moreover have "if events ep = {} then fold epoll_ctl calls registered ep = Some watched
      else \<exists>event \<in> events ep. fold epoll_ctl calls registered ep = Some (watched(new_fd ks \<mapsto> event))"
    if "registered ep = Some watched" for registered ep watched
    using repair_epolls_kernel [of translate' "tracked_client_vfd state" "new_fd ks" registered,
        OF fd that, of epolls]
    unfolding assms(3) calls Let_def .
  ultimately show ?thesis by blast
qed

section \<open>Witnesses\<close>

definition example_listener :: "int \<Rightarrow> socket_info" where
  "example_listener _ = \<lparr>so_domain = Some 2, so_type = Some 1, so_protocol = Some 6, so_reuseaddr = Some 1,
     fl_flags = 2048, sock_name = Some (set_field 2 (htons 80) (set_field 0 AF_INET sockaddr_zero), 16)\<rparr>"

definition example_waiting :: "nat VirtualMachine" where
  "example_waiting = \<lparr>
     m_machine = \<lparr>regs = \<lparr>rax = 0, rip = 0, rflags = 0, rcx = 0, r11 = 0, rdi = 0, rsi = 0\<rparr>, memory = 0,
       stopped = True, cow_memory = None, linux_setup = None, remote = None, remote_serializer = False, verbose_system_calls = False,
       verbose_mmap = False, verbose_threads = False\<rparr>,
     m_fds = new_fds, m_config = default_configuration, m_original_binary = [], m_binary_type = Static,
     m_reqid = 0, m_ephemeral = True, m_is_storage = False, m_reset_needed = False,
     m_waiting_for_requests = True, m_blocking_connections = False, m_tracked_client_fd = 5,
     m_tracked_client_vfd = 4, m_poll_method = Epoll\<rparr>"

definition example_saved :: AppSnapshotState where
  "example_saved = \<lparr>poll_method = Epoll, tracked_client_vfd = 4, backlog = 128, domain = 2, sock_kind = 1,
     protocol = 6, flags = 2048, reuseaddr = 1, addr_len = 16,
     addr = set_field 2 (htons 80) (set_field 0 AF_INET sockaddr_zero)\<rparr>"

definition all_calls_succeed :: kernel_answers where
  "all_calls_succeed = \<lparr>new_fd = 9, setsockopt_ok = True, setfl_ok = True, bind_ok = True, listen_ok = True\<rparr>"

lemma example_save: "save_state None True example_listener example_waiting = Inr example_saved"
  by (simp add: save_state_def check_call_def example_listener_def example_waiting_def example_saved_def)

text \<open>
  One epoll set, virtual descriptor 8 and real descriptor 3, watches the listener and a connection that is
  gone.
\<close>

lemma example_load:
  "\<exists>sock vm'. load_state True all_calls_succeed (\<lambda>v. if v = 8 then 3 else - 1) example_saved
      ([(8, [(4, ''in''), (6, ''in'')])], example_waiting) =
    (Inr (sock, [EpollDel 3 9 ''in'', EpollAdd 3 9 ''in''], [(8, [(4, ''in'')])]), vm')"
  by (simp add: load_state_def restore_socket_def all_calls_succeed_def example_saved_def repair_epoll_def)

theorem load_repairs_epoll_sets_witness:
  "\<exists>sock calls epolls' vm'. load_state True all_calls_succeed (\<lambda>v. if v = 8 then 3 else - 1) example_saved
      ([(8, [(4, ''in''), (6, ''in'')])], example_waiting) = (Inr (sock, calls, epolls'), vm') \<and>
    snd (epolls' ! 0) = [(4, ''in'')] \<and>
    fold epoll_ctl calls [3 \<mapsto> [9 \<mapsto> ''out'']] 3 = Some [9 \<mapsto> ''in'']"
proof -
  let ?t = "(\<lambda>v :: int. if v = 8 then 3 else - 1)(tracked_client_vfd example_saved := new_fd all_calls_succeed)"
  let ?sets = "[(8 :: int, [(4 :: int, ''in''), (6, ''in'')])]"
  let ?events = "\<lambda>ep. {event. \<exists>s \<in> set ?sets. ?t (fst s) = ep \<and>
    map_of (snd s) (tracked_client_vfd example_saved) = Some event}"
  obtain sock calls epolls' vm' where l: "load_state True all_calls_succeed (\<lambda>v. if v = 8 then 3 else - 1)
      example_saved (?sets, example_waiting) = (Inr (sock, calls, epolls'), vm')"
    using example_load by blast
  note repaired = load_repairs_epoll_sets [OF l refl refl]
  have events: "?events 3 = {''in''}" by (simp add: example_saved_def all_calls_succeed_def)
  have "fold epoll_ctl calls [3 \<mapsto> [9 \<mapsto> ''out'']] 3 = Some [9 \<mapsto> ''in'']"
    using repaired [THEN conjunct2, THEN conjunct2, rule_format, of "[3 \<mapsto> [9 \<mapsto> ''out'']]" 3]
    unfolding events by (simp add: all_calls_succeed_def)
  moreover have "snd (epolls' ! 0) = [(4, ''in'')]"
    using repaired by (simp add: example_saved_def all_calls_succeed_def)
  ultimately show ?thesis using l by blast
qed

end
