(* ===== verification/Debugger.thy ===== *)
theory Debugger
  imports VirtualMachine
begin

text \<open>
  \<open>open_debugger\<close> (vm.cpp).  The debugging server of the hypervisor is a parameter: whether it can be made,
  and the clients it accepts before \<open>accept\<close> gives none.  For each client it is a list of the calls of
  \<open>process_one\<close>, as long as there is one: what the guest does during the call, and whether the call says
  that the client goes on.  \<open>run\<close> is how the guest of the machine in question runs.
\<close>

record 'ev debugger =
  rsp_failure :: "vm_error option"
  rsp_clients :: "('ev list \<times> bool) list list"

text \<open>The loop of a client.  An exception is reported and leaves \<open>running\<close> as it was, true.\<close>

fun debug_client ::
  "('ev list \<Rightarrow> 's \<Rightarrow> vm_error option \<times> 's) \<Rightarrow> ('ev list \<times> bool) list \<Rightarrow> 's \<Rightarrow> 's option" where
  "debug_client run [] s = None"
| "debug_client run ((es, running) # calls) s =
     (case run es s of
        (Some err, s) \<Rightarrow> debug_client run calls s
      | (None, s) \<Rightarrow> if running then debug_client run calls s else Some s)"

fun debug_clients ::
  "('ev list \<Rightarrow> 's \<Rightarrow> vm_error option \<times> 's) \<Rightarrow> ('ev list \<times> bool) list list \<Rightarrow> 's \<Rightarrow> 's option" where
  "debug_clients run [] s = Some s"
| "debug_clients run (client # clients) s =
     (case debug_client run client s of None \<Rightarrow> None | Some s \<Rightarrow> debug_clients run clients s)"

definition open_debugger ::
  "('ev list \<Rightarrow> 's \<Rightarrow> vm_error option \<times> 's) \<Rightarrow> 'ev debugger \<Rightarrow> 's \<Rightarrow> (vm_error option \<times> 's) option" where
  "open_debugger run d s =
     (case rsp_failure d of
        Some err \<Rightarrow> Some (Some err, s)
      | None \<Rightarrow> map_option (Pair None) (debug_clients run (rsp_clients d) s))"

section \<open>What the debugger keeps, and when it ends\<close>

text \<open>A relation that every run of the guest keeps is kept by the debugger.\<close>

locale kept_by_runs =
  fixes run :: "'ev list \<Rightarrow> 's \<Rightarrow> vm_error option \<times> 's" and ok :: "'ev list \<Rightarrow> bool" and rel :: "'s \<Rightarrow> 's \<Rightarrow> bool"
  assumes refl: "rel s s" and trans: "rel s t \<Longrightarrow> rel t u \<Longrightarrow> rel s u"
    and run_keeps: "ok es \<Longrightarrow> run es s = (r, s') \<Longrightarrow> rel s s'"
begin

lemma debug_client_keeps: "list_all (ok \<circ> fst) calls \<Longrightarrow> debug_client run calls s = Some s' \<Longrightarrow> rel s s'"
proof (induction calls arbitrary: s)
  case (Cons call calls)
  obtain es running where call: "call = (es, running)" by (cases call)
  obtain r t where t: "run es s = (r, t)" by (cases "run es s")
  have "rel s t" using Cons.prems(1) call by (intro run_keeps [OF _ t]) simp
  moreover have "t = s' \<or> rel t s'"
    using Cons t call by (auto split: option.splits if_splits)
  ultimately show ?case by (auto intro: trans)
qed simp

lemma debug_clients_keep:
  "list_all (list_all (ok \<circ> fst)) clients \<Longrightarrow> debug_clients run clients s = Some s' \<Longrightarrow> rel s s'"
  by (induction clients arbitrary: s) (auto intro: refl trans debug_client_keeps split: option.splits)

lemma open_debugger_keeps:
  "list_all (list_all (ok \<circ> fst)) (rsp_clients d) \<Longrightarrow> open_debugger run d s = Some (r, s') \<Longrightarrow> rel s s'"
  by (auto simp: open_debugger_def intro: refl debug_clients_keep split: option.splits)

end

text \<open>
  The debugger does not end as long as a client goes on; a client whose calls all fail goes on for ever,
  since an exception never ends its loop.
\<close>

lemma debug_client_ends: "debug_client run calls s = Some s' \<Longrightarrow> False \<in> snd ` set calls"
  by (induction run calls s rule: debug_client.induct) (auto split: prod.splits option.splits if_splits)

lemma open_debugger_ends:
  assumes "open_debugger run d s = Some (None, s')" "client \<in> set (rsp_clients d)"
  shows "False \<in> snd ` set client"
proof -
  have "debug_clients run clients t = Some s' \<Longrightarrow> client \<in> set clients \<Longrightarrow> False \<in> snd ` set client" for clients t
    by (induction clients arbitrary: t) (auto dest: debug_client_ends split: option.splits)
  then show ?thesis using assms by (auto simp: open_debugger_def split: option.splits)
qed

lemma failing_client_goes_on: "(\<And>es s. es \<in> fst ` set calls \<Longrightarrow> fst (run es s) \<noteq> None) \<Longrightarrow> debug_client run calls s = None"
proof (induction calls arbitrary: s)
  case (Cons call calls)
  obtain es running where call: "call = (es, running)" by (cases call)
  obtain err t where "run es s = (Some err, t)" using Cons.prems [of es s] call by (cases "run es s") auto
  then show ?case using Cons call by simp
qed simp

end
