(* ===== verification/Initialize.thy ===== *)
theory Initialize
  imports WarmupClient Snapshot Debugger
begin

text \<open>
  \<open>initialize\<close> and \<open>initialize_from_file\<close> (vm.cpp): the ways to run a program until it waits for requests,
  chosen by environment variables, the warm-up, the snapshot, and the handlers of exceptions.
\<close>

section \<open>Running the program\<close>

text \<open>
  The behaviour of a program while it starts: under \<open>run\<close>, under the debugger, in each run of the sampling
  mode, under the debugger that is opened after a failure, and in the warm-up.  A run that takes longer
  than it may ends with the event \<open>Fault MachineTimeout\<close>.  After a failed warm-up its callbacks are still
  installed and refer to local variables that are gone; \<open>stale_locals\<close> is what they read then.
\<close>

record 'm program_run =
  boot_script :: "'m boot_event list"
  debug_script :: "'m boot_event debugger"
  sampling_script :: "'m boot_event list list"
  failure_script :: "'m boot_event debugger"
  stale_locals :: warmup_locals
  warmup_script :: "'m boot_event list"

text \<open>The sampling mode counts where the program is at each timeout.\<close>

definition take_sample :: "u64 \<Rightarrow> (u64 \<rightharpoonup> u64) \<Rightarrow> (u64 \<rightharpoonup> u64)" where
  "take_sample ip samples =
     (case samples ip of Some n \<Rightarrow> samples(ip \<mapsto> n + 1) | None \<Rightarrow> samples(ip \<mapsto> 1))"

text \<open>
  Its loop, over the runs given: the exception that ended it, or \<open>None\<close> when it still loops.  A run that
  ends normally does not end it.
\<close>

fun sampling ::
  "('ev list \<Rightarrow> 'm VirtualMachine \<Rightarrow> vm_error option \<times> 'm VirtualMachine) \<Rightarrow> 'ev list list
   \<Rightarrow> (u64 \<rightharpoonup> u64) \<times> 'm VirtualMachine \<Rightarrow> vm_error option \<times> (u64 \<rightharpoonup> u64) \<times> 'm VirtualMachine" where
  "sampling run [] s = (None, s)"
| "sampling run (es # runs) (samples, vm) =
     (case run es vm of
        (None, vm) \<Rightarrow> sampling run runs (samples, vm)
      | (Some MachineTimeout, vm) \<Rightarrow>
          sampling run runs (take_sample (rip (regs (m_machine vm))) samples, vm)
      | (Some err, vm) \<Rightarrow> (Some err, samples, vm))"

text \<open>
  The choice among them.  The three calls of \<open>run\<close> (with \<open>BENCH\<close>, for a single machine, and with the boot
  time as a limit) differ in the limit only.  \<open>None\<close> means that the program never returns.
\<close>

definition run_program ::
  "('m boot_event list \<Rightarrow> 'm VirtualMachine \<Rightarrow> vm_error option \<times> 'm VirtualMachine) \<Rightarrow> string list \<Rightarrow> 'm program_run
   \<Rightarrow> 'm VirtualMachine \<Rightarrow> (vm_error option \<times> 'm VirtualMachine) option" where
  "run_program run env r vm =
     (if getenv env ''DEBUG'' \<noteq> None then open_debugger run (debug_script r) vm
      else if getenv env ''SAMPLING'' \<noteq> None then
        (case sampling run (sampling_script r) (Map.empty, vm) of
           (None, _) \<Rightarrow> None
         | (Some err, _, vm) \<Rightarrow> Some (Some err, vm))
      else Some (run (boot_script r) vm))"

section \<open>Initialisation\<close>

text \<open>
  What the machine has of a snapshot, and the answers of the kernel when it is saved or loaded.
\<close>

record 'e snapshot_env =
  has_snapshot_state :: bool
  has_snapshot_area :: bool
  user_area :: bool
  save_now_failure :: "vm_error option"
  saved_state :: AppSnapshotState
  socket_infos :: "int \<Rightarrow> socket_info"
  answers :: kernel_answers
  translate_fd :: "int \<Rightarrow> int"
  epoll_sets :: "'e epoll_set list"

text \<open>The start from a snapshot, with the machine it leaves, also when \<open>load_state\<close> throws.\<close>

definition initialize_from_file ::
  "'e snapshot_env \<Rightarrow> 'm VirtualMachine \<Rightarrow> (vm_error + AppSnapshotState option) \<times> 'm VirtualMachine" where
  "initialize_from_file snap vm =
     (let vm = vm\<lparr>m_waiting_for_requests := True\<rparr>;
          vm = vm\<lparr>m_machine := (m_machine vm)\<lparr>cow_memory := Some 0\<rparr>\<rparr>
      in if has_snapshot_state snap then
           (case load_state (user_area snap) (answers snap) (translate_fd snap) (saved_state snap)
                   (epoll_sets snap, vm) of
              (Inl err, vm) \<Rightarrow> (Inl err, vm)
            | (Inr _, vm) \<Rightarrow> (Inr None, vm))
         else (Inr None, vm))"

type_synonym 'm init_state = "warmup_client \<times> 'm VirtualMachine"

text \<open>The end of the guarded part: the machine is made forkable and its state is saved.\<close>

definition finish_and_save :: "'e snapshot_env \<Rightarrow> bool \<Rightarrow> ('m init_state, vm_error, AppSnapshotState option) program" where
  "finish_and_save snap just_one_vm = (\<lambda>(cl, vm).
     let vm = finish_boot just_one_vm vm
     in if \<not> m_is_storage vm \<and> has_snapshot_area snap then
          Some (then_do (save_state (save_now_failure snap) (user_area snap) (socket_infos snap) vm) (\<lambda>state. Inr (Some state)), cl, vm)
        else Some (Inr None, cl, vm))"

text \<open>After the run: a program that waits is warmed up; \<open>warmup_callback\<close> is the function \<open>initialize\<close> is given.\<close>

definition after_run ::
  "'e snapshot_env \<Rightarrow> ('m init_state, vm_error, unit) program option \<Rightarrow> bool
   \<Rightarrow> ('m init_state, vm_error, AppSnapshotState option) program" where
  "after_run snap warmup_callback just_one_vm = (\<lambda>(cl, vm).
     if \<not> m_waiting_for_requests vm then
       (if just_one_vm then Some (Inr None, cl, vm)
        else Some (Inl (RuntimeError ''Program did not wait for requests''), cl, vm))
     else
       and_then (case warmup_callback of None \<Rightarrow> lift_result (Inr ()) | Some f \<Rightarrow> f)
         (\<lambda>_. finish_and_save snap just_one_vm) (cl, vm))"

text \<open>The body of the \<open>try\<close>.\<close>

definition initialize_body ::
  "'m tinykvm \<Rightarrow> path_checks \<Rightarrow> string list \<Rightarrow> 'e snapshot_env \<Rightarrow> 'm program_run
   \<Rightarrow> ('m init_state, vm_error, unit) program option \<Rightarrow> bool
   \<Rightarrow> ('m init_state, vm_error, AppSnapshotState option) program" where
  "initialize_body k checks env snap r warmup_callback just_one_vm = (\<lambda>(cl, vm).
     case run_program (guest_run checks new_locals) env r (prepare_boot k vm) of
       None \<Rightarrow> None
     | Some (Some err, vm) \<Rightarrow> Some (Inl err, cl, vm)
     | Some (None, vm) \<Rightarrow> after_run snap warmup_callback just_one_vm (cl, vm))"

text \<open>
  The handlers: the debugger is opened when it is asked for, and the exception is thrown again, unless the
  debugger throws another one.
\<close>

definition debug_failure ::
  "path_checks \<Rightarrow> string list \<Rightarrow> 'm program_run \<Rightarrow> vm_error \<Rightarrow> ('m init_state, vm_error, 'a) program" where
  "debug_failure checks env r err = (\<lambda>(cl, vm).
     if getenv env ''DEBUG'' \<noteq> None then
       (case open_debugger (guest_run checks (stale_locals r)) (failure_script r) vm of
          None \<Rightarrow> None
        | Some (Some err, vm) \<Rightarrow> Some (Inl err, cl, vm)
        | Some (None, vm) \<Rightarrow> Some (Inl err, cl, vm))
     else Some (Inl err, cl, vm))"

text \<open>\<open>initialize\<close>, with the state it saves in the snapshot as its result.\<close>

definition initialize ::
  "'m tinykvm \<Rightarrow> path_checks \<Rightarrow> string list \<Rightarrow> 'e snapshot_env \<Rightarrow> 'm program_run
   \<Rightarrow> ('m init_state, vm_error, unit) program option \<Rightarrow> bool
   \<Rightarrow> ('m init_state, vm_error, AppSnapshotState option) program" where
  "initialize k checks env snap r warmup_callback just_one_vm = (\<lambda>(cl, vm).
     if has_snapshot_state snap then
       (case initialize_from_file snap vm of (result, vm) \<Rightarrow> Some (result, cl, vm))
     else
       rescue (initialize_body k checks env snap r warmup_callback just_one_vm)
         (debug_failure checks env r) (cl, vm))"

section \<open>What a successful start has done\<close>

lemma debug_failure_throws: "debug_failure checks env r err s \<noteq> Some (Inr y, s')"
  by (cases s) (auto simp: debug_failure_def split: option.splits)

lemma initialize_body_cases:
  assumes "initialize_body k checks env snap r w just_one_vm (cl, vm) = Some (Inr saved, cl', vm')"
  obtains (ended) "run_program (guest_run checks new_locals) env r (prepare_boot k vm) = Some (None, vm')"
      "\<not> m_waiting_for_requests vm'" "just_one_vm" "cl' = cl"
  | (started) v v2 where
      "run_program (guest_run checks new_locals) env r (prepare_boot k vm) = Some (None, v)"
      "m_waiting_for_requests v"
      "(case w of None \<Rightarrow> lift_result (Inr ()) | Some f \<Rightarrow> f) (cl, v) = Some (Inr (), cl', v2)"
      "vm' = finish_boot just_one_vm v2"
proof -
  obtain v where v: "run_program (guest_run checks new_locals) env r (prepare_boot k vm) = Some (None, v)"
    using assms by (auto simp: initialize_body_def after_run_def split: option.splits)
  show thesis
  proof (cases "m_waiting_for_requests v")
    case True
    then have "and_then (case w of None \<Rightarrow> lift_result (Inr ()) | Some f \<Rightarrow> f)
        (\<lambda>_. finish_and_save snap just_one_vm) (cl, v) = Some (Inr saved, cl', vm')"
      using assms v by (simp add: initialize_body_def after_run_def)
    then show thesis
      using started [OF v True] by (auto simp: and_then_returns_iff finish_and_save_def Let_def split: if_splits)
  next
    case False
    then show thesis using ended assms v by (auto simp: initialize_body_def after_run_def split: if_splits)
  qed
qed

lemma initialize_returns:
  "\<not> has_snapshot_state snap \<Longrightarrow>
   initialize k checks env snap r w just_one_vm (cl, vm) = Some (Inr saved, cl', vm') \<longleftrightarrow>
   initialize_body k checks env snap r w just_one_vm (cl, vm) = Some (Inr saved, cl', vm')"
  by (simp add: initialize_def rescue_throws_returns debug_failure_throws)

section \<open>What every way of running keeps\<close>

text \<open>The contract of a run, for machines: the sampling mode and the choice among the modes keep it too.\<close>

locale kept_by_machine_runs = kept_by_runs run ok rel
  for run :: "'m boot_event list \<Rightarrow> 'm VirtualMachine \<Rightarrow> vm_error option \<times> 'm VirtualMachine" and ok and rel
begin

lemma sampling_keeps:
  "list_all ok runs \<Longrightarrow> sampling run runs (samples, vm) = (r, samples', vm') \<Longrightarrow> rel vm vm'"
proof (induction runs arbitrary: samples vm)
  case (Cons es runs)
  obtain x v where v: "run es vm = (x, v)" by (cases "run es vm")
  have "rel vm v" using Cons.prems(1) by (intro run_keeps [OF _ v]) simp
  moreover have "vm' = v \<or> (\<exists>m. sampling run runs (m, v) = (r, samples', vm'))"
    using Cons.prems(2) v by (auto split: option.splits vm_error.splits)
  ultimately show ?case using Cons.IH Cons.prems(1) by (auto intro: trans)
qed (simp add: refl)

lemma run_program_keeps:
  assumes "ok (boot_script r)" "list_all ok (sampling_script r)"
    and "list_all (list_all (ok \<circ> fst)) (rsp_clients (debug_script r))"
    and "run_program run env r vm = Some (x, vm')"
  shows "rel vm vm'"
  using assms(4) open_debugger_keeps [OF assms(3)] sampling_keeps [OF assms(2)] run_keeps [OF assms(1)]
  by (auto simp: run_program_def split: if_splits option.splits prod.splits)

end

lemma guest_run_iff: "guest_run checks ws es vm = (r, vm') \<longleftrightarrow> (\<exists>ws'. machine_run checks es (ws, vm) = (r, ws', vm'))"
  by (auto simp: guest_run_def split: prod.splits)

interpretation kept_program: kept_by_machine_runs "guest_run checks ws" "\<lambda>_. True" same_program
  for checks and ws
  by unfold_locales
    (auto simp: guest_run_iff same_program_refl intro: same_program_trans machine_run_same_program)

interpretation kept_listener: kept_by_machine_runs "guest_run checks ws" "list_all (boot_event_ok sock_names)"
  "\<lambda>vm vm'. boot_inv checks sock_names vm \<longrightarrow> boot_inv checks sock_names vm'"
  for checks and ws and sock_names
  by unfold_locales (auto simp: guest_run_iff intro: machine_run_inv)

text \<open>The program a start ends with is the one it began with.\<close>

lemma initialize_same_program:
  assumes "initialize k checks env snap r w just_one_vm (cl, vm) = Some (Inr saved, cl', vm')"
    and "\<And>f c v c' v' x. w = Some f \<Longrightarrow> f (c, v) = Some (x, c', v') \<Longrightarrow> same_program v v'"
  shows "same_program vm vm'"
proof (cases "has_snapshot_state snap")
  case True
  then show ?thesis
    using assms(1) by (auto simp: same_program_def guards_def initialize_def initialize_from_file_def
        load_state_returns Let_def split: if_splits sum.splits prod.splits)
next
  case False
  have run: "same_program vm v"
    if "run_program (guest_run checks new_locals) env r (prepare_boot k vm) = Some (None, v)" for v
    using kept_program.run_program_keeps [OF _ _ _ that]
    by (auto intro: same_program_trans prepare_boot_same_program simp: list_all_iff)
  show ?thesis
    using assms(1) unfolding initialize_returns [OF False]
  proof (cases rule: initialize_body_cases)
    case (started v v2)
    have "same_program v v2"
      using started(3) assms(2) by (cases w) (auto simp: same_program_refl)
    then show ?thesis
      using run [OF started(1)] started(4) same_program_trans finish_boot_same_program by blast
  qed (auto intro: run)
qed

lemma warmed_initialize_same_program:
  "initialize k checks env snap r (Some (warmup checks cenv es)) just_one_vm (cl, vm) = Some (Inr saved, cl', vm')
   \<Longrightarrow> same_program vm vm'"
  by (rule initialize_same_program) (auto dest: warmup_same_program)

section \<open>A started program waits on an allowed listener\<close>

text \<open>\<open>sock_names\<close> are the addresses of the descriptors the program listens on while it starts.\<close>

definition guest_ok :: "(int \<Rightarrow> sockaddr_storage option) \<Rightarrow> 'm program_run \<Rightarrow> bool" where
  "guest_ok sock_names r \<longleftrightarrow>
     list_all (boot_event_ok sock_names) (boot_script r) \<and>
     list_all (list_all (boot_event_ok sock_names)) (sampling_script r) \<and>
     list_all (list_all (list_all (boot_event_ok sock_names) \<circ> fst)) (rsp_clients (debug_script r)) \<and>
     list_all (boot_event_ok sock_names) (warmup_script r)"

lemma initialize_listener:
  assumes "boot_inv checks sock_names (prepare_boot k vm)"
    and "initialize k checks env snap r (Some (warmup checks cenv (warmup_script r))) just_one_vm (cl, vm)
      = Some (Inr saved, cl', vm')"
    and "\<not> has_snapshot_state snap" "m_waiting_for_requests vm' \<or> \<not> just_one_vm" "guest_ok sock_names r"
  shows "m_waiting_for_requests vm'" "m_poll_method vm' \<noteq> Undefined" "m_tracked_client_vfd vm' \<noteq> - 1"
    "validate_listener checks vm' (sock_names (m_tracked_client_fd vm')) = Inr True"
proof -
  obtain v v2 where run: "run_program (guest_run checks new_locals) env r (prepare_boot k vm) = Some (None, v)"
      "m_waiting_for_requests v" "warmup checks cenv (warmup_script r) (cl, v) = Some (Inr (), cl', v2)"
      "vm' = finish_boot just_one_vm v2"
    using assms(2,4) unfolding initialize_returns [OF assms(3)] by (cases rule: initialize_body_cases) auto
  have "boot_inv checks sock_names v"
    using kept_listener.run_program_keeps [OF _ _ _ run(1), of sock_names] assms(1,5)
    by (simp add: guest_ok_def)
  then have "boot_inv checks sock_names v2" "m_waiting_for_requests v2"
    using warmup_inv [OF run(3) _ _ run(2)] assms(5) by (auto simp: guest_ok_def)
  then show "m_waiting_for_requests vm'" "m_poll_method vm' \<noteq> Undefined" "m_tracked_client_vfd vm' \<noteq> - 1"
    "validate_listener checks vm' (sock_names (m_tracked_client_fd vm')) = Inr True"
    using validate_listener_cong [of vm' v2] by (simp_all add: run(4) finish_boot_fields boot_inv_def)
qed

text \<open>
  C12: A program that was started to be forked, not from a snapshot and without error, whatever its guest
  code does and in whatever way it was run, waits for requests on a socket that passed the listener check,
  with a known polling method, also after a warm-up; so every fork of it can do its polling system call
  again.  Each real descriptor has one address during the start (\<open>guest_ok\<close>).
\<close>

theorem started_program_waits_on_allowed_listener:
  assumes "new_machine k ld binary config False = Inr vm"
    and "initialize k checks env snap r (Some (warmup checks cenv (warmup_script r))) False (cl, vm)
      = Some (Inr saved, cl', vm')"
    and "\<not> has_snapshot_state snap" "guest_ok sock_names r"
  shows "m_waiting_for_requests vm' \<and> m_tracked_client_vfd vm' \<noteq> - 1 \<and>
    validate_listener checks vm' (sock_names (m_tracked_client_fd vm')) = Inr True \<and>
    (\<forall>reqid s f. new_fork k vm' reqid s = Inr f \<longrightarrow> (\<exists>nr. restart_poll_syscall f = Inr nr))"
proof -
  note started = initialize_listener [OF prepare_boot_inv [OF assms(1)] assms(2,3) disjI2 assms(4), OF notI]
  have "m_poll_method f = m_poll_method vm'" if "new_fork k vm' reqid s = Inr f" for reqid s f
    using that by (auto simp: new_fork_def then_do_Inr_iff)
  then show ?thesis using started restart_poll_defined by metis
qed

section \<open>The sampling mode\<close>

text \<open>The places where the program was at the timeouts, in order.\<close>

fun sampled ::
  "('ev list \<Rightarrow> 'm VirtualMachine \<Rightarrow> vm_error option \<times> 'm VirtualMachine) \<Rightarrow> 'ev list list \<Rightarrow> 'm VirtualMachine \<Rightarrow> u64 list" where
  "sampled run [] vm = []"
| "sampled run (es # runs) vm =
     (case run es vm of
        (None, vm) \<Rightarrow> sampled run runs vm
      | (Some err, vm) \<Rightarrow>
          if err = MachineTimeout then rip (regs (m_machine vm)) # sampled run runs vm else [])"

lemma sampling_counts:
  assumes "sampling run runs (samples, vm) = (r, samples', vm')"
  shows "samples' ip =
    (if ip \<in> set (sampled run runs vm)
     then Some ((case samples ip of None \<Rightarrow> 0 | Some n \<Rightarrow> n) + of_nat (count_list (sampled run runs vm) ip))
     else samples ip)"
  using assms
proof (induction runs arbitrary: samples vm)
  case (Cons es runs)
  obtain x v where v: "run es vm = (x, v)" by (cases "run es vm")
  consider "x = None" | "x = Some MachineTimeout" | err where "x = Some err" "err \<noteq> MachineTimeout"
    by (cases x) auto
  then show ?case
  proof cases
    case 1
    then show ?thesis using Cons v by simp
  next
    case 2
    let ?ip = "rip (regs (m_machine v))"
    have "sampling run runs (take_sample ?ip samples, v) = (r, samples', vm')"
      using Cons.prems v 2 by simp
    from Cons.IH [OF this] show ?thesis
      by (cases "samples ?ip"; cases "ip = ?ip") (auto simp: v 2 take_sample_def count_list_0_iff algebra_simps)
  next
    case (3 err)
    then show ?thesis using Cons.prems v by (cases err) auto
  qed
qed simp

lemma sampling_no_timeout: "sampling run runs s \<noteq> (Some MachineTimeout, s')"
  by (induction run runs s rule: sampling.induct) (auto split: prod.splits option.splits vm_error.splits)

text \<open>
  C35: In the sampling mode \<open>initialize\<close> never returns normally, whatever the program does, so nothing is
  ever served: it samples for ever, or ends with an exception other than a timeout.  While it loops, the
  count of a place is the number of timeouts in which the program was there.
\<close>

theorem sampling_mode_never_returns:
  assumes "getenv env ''SAMPLING'' \<noteq> None" "getenv env ''DEBUG'' = None" "\<not> has_snapshot_state snap"
  shows "(initialize k checks env snap r w just_one_vm (cl, vm) = None \<or>
      (\<exists>err s'. initialize k checks env snap r w just_one_vm (cl, vm) = Some (Inl err, s') \<and> err \<noteq> MachineTimeout)) \<and>
    (sampling (guest_run checks new_locals) (sampling_script r) (Map.empty, vm) = (x, samples, vm') \<longrightarrow>
      samples ip = (let places = sampled (guest_run checks new_locals) (sampling_script r) vm
                    in if ip \<in> set places then Some (of_nat (count_list places ip)) else None))"
proof -
  have "initialize k checks env snap r w just_one_vm (cl, vm) = None \<or>
      (\<exists>err s'. initialize k checks env snap r w just_one_vm (cl, vm) = Some (Inl err, s') \<and> err \<noteq> MachineTimeout)"
    using assms
    by (auto simp: sampling_no_timeout initialize_def rescue_def initialize_body_def after_run_def run_program_def debug_failure_def
        split: option.splits prod.splits)
  then show ?thesis
    using sampling_counts [of "guest_run checks new_locals" "sampling_script r" Map.empty vm x samples vm' ip]
    by (simp add: Let_def)
qed

section \<open>A restart from a snapshot\<close>

lemma initialize_saves:
  assumes "initialize k checks env snap r w just_one_vm (cl, vm) = Some (Inr (Some state), cl', vm')"
    and "\<not> has_snapshot_state snap"
  shows "save_state (save_now_failure snap) (user_area snap) (socket_infos snap) vm' = Inr state"
proof -
  have body: "initialize_body k checks env snap r w just_one_vm (cl, vm) = Some (Inr (Some state), cl', vm')"
    using assms by (simp add: initialize_returns)
  then obtain v s2 where v: "m_waiting_for_requests v"
      "(case w of None \<Rightarrow> lift_result (Inr ()) | Some f \<Rightarrow> f) (cl, v) = Some (Inr (), s2)"
      "finish_and_save snap just_one_vm s2 = Some (Inr (Some state), cl', vm')"
    by (auto simp: initialize_body_def after_run_def and_then_returns_iff split: option.splits if_splits)
  then show ?thesis
    by (cases s2) (auto simp: finish_and_save_def Let_def then_do_Inr_iff split: if_splits)
qed

lemma initialize_loads:
  assumes "initialize k checks env snap r w just_one_vm (cl, vm) = Some (Inr saved, cl', vm')" "has_snapshot_state snap"
  obtains sock calls epolls where "load_state (user_area snap) (answers snap) (translate_fd snap) (saved_state snap)
    (epoll_sets snap, vm\<lparr>m_waiting_for_requests := True, m_machine := (m_machine vm)\<lparr>cow_memory := Some 0\<rparr>\<rparr>)
    = (Inr (sock, calls, epolls), vm')"
  using assms by (auto simp: initialize_def initialize_from_file_def Let_def split: sum.splits prod.splits)

text \<open>Neither the restart nor its result depends on the configuration.\<close>

lemma initialize_from_file_any_configuration:
  "initialize_from_file snap vm = (result, vm') \<Longrightarrow>
   initialize_from_file snap (vm\<lparr>m_config := config\<rparr>) = (result, vm'\<lparr>m_config := config\<rparr>)"
  by (cases vm) (auto simp: initialize_from_file_def load_state_def Let_def split: if_splits sum.splits)

text \<open>
  C39: A server that starts from a snapshot waits where the program waited when it was saved, with the same
  polling method and descriptor, on a new socket bound to the same address, and that address had passed the
  listener check of the server that saved it.  It is not checked again: the restart succeeds alike under
  every configuration, also under one that allows no listener.
\<close>

theorem restart_waits_where_the_program_was_saved:
  assumes "new_machine k ld binary config False = Inr vm"
    and "initialize k checks env snap r (Some (warmup checks cenv (warmup_script r))) False (cl, vm)
      = Some (Inr (Some state), cl', vm')"
    and "\<not> has_snapshot_state snap" "user_area snap" "guest_ok sock_names r"
    and "\<forall>fd. sock_names fd = map_option fst (sock_name (socket_infos snap fd))"
    and "initialize k2 checks2 env2 snap2 r2 w2 just_one (cl2, vm2) = Some (Inr saved, cl2', vm2')"
    and "has_snapshot_state snap2" "saved_state snap2 = state"
  shows "m_waiting_for_requests vm2' \<and> m_poll_method vm2' = m_poll_method vm' \<and> m_poll_method vm2' \<noteq> Undefined \<and>
    m_tracked_client_vfd vm2' = m_tracked_client_vfd vm' \<and>
    (\<exists>sock. restore_socket (answers snap2) state = Inr (m_tracked_client_fd vm2', sock) \<and>
       validate_listener checks vm' (Some (sock_addr sock)) = Inr True) \<and>
    initialize k2 checks2 env2 snap2 r2 w2 just_one (cl2, vm2\<lparr>m_config := any\<rparr>)
      = Some (Inr saved, cl2', vm2'\<lparr>m_config := any\<rparr>)"
proof -
  note started = initialize_listener [OF prepare_boot_inv [OF assms(1)] assms(2,3) disjI2 assms(5), OF notI]
  note saved = initialize_saves [OF assms(2,3), unfolded eq_True [THEN iffD2, OF assms(4)]]
  obtain sock calls epolls where l: "load_state (user_area snap2) (answers snap2) (translate_fd snap2) state
      (epoll_sets snap2, vm2\<lparr>m_waiting_for_requests := True, m_machine := (m_machine vm2)\<lparr>cow_memory := Some 0\<rparr>\<rparr>)
      = (Inr (sock, calls, epolls), vm2')"
    using initialize_loads [OF assms(7,8)] assms(9) by metis
  have area: "user_area snap2" using l by (simp add: load_state_returns)
  note restored = load_restores_saved_listener [OF saved l [unfolded eq_True [THEN iffD2, OF area]]]
  have sock: "restore_socket (answers snap2) state = Inr (m_tracked_client_fd vm2', sock)"
      "m_waiting_for_requests vm2'"
    using l by (simp_all add: load_state_returns)
  have "sock_names (m_tracked_client_fd vm') = Some (sock_addr sock)"
    using restored assms(6) by (simp add: Let_def)
  then have "validate_listener checks vm' (Some (sock_addr sock)) = Inr True" using started(4) by simp
  moreover have "initialize k2 checks2 env2 snap2 r2 w2 just_one (cl2, vm2\<lparr>m_config := any\<rparr>)
      = Some (Inr saved, cl2', vm2'\<lparr>m_config := any\<rparr>)"
    using initialize_from_file_any_configuration [of snap2 vm2 _ vm2' any] assms(7,8)
    by (auto simp: initialize_def split: prod.splits)
  ultimately show ?thesis using restored started(2) sock by auto
qed

section \<open>Witnesses\<close>

definition no_snapshot :: "nat snapshot_env" where
  "no_snapshot = \<lparr>has_snapshot_state = False, has_snapshot_area = False, user_area = False, save_now_failure = None,
     saved_state = example_saved, socket_infos = example_listener, answers = all_calls_succeed,
     translate_fd = (\<lambda>_. - 1), epoll_sets = []\<rparr>"

definition no_debugger :: "'ev debugger" where
  "no_debugger = \<lparr>rsp_failure = None, rsp_clients = []\<rparr>"

definition example_run :: "nat program_run" where
  "example_run = \<lparr>boot_script = boot_events, debug_script = no_debugger,
     sampling_script = [[Fault MachineTimeout], [Fault MachineTimeout], boot_events],
     failure_script = no_debugger, stale_locals = new_locals, warmup_script = warmup_events\<rparr>"

lemma example_run_ok: "guest_ok example_sock_names example_run"
  using example_events_ok by (simp add: guest_ok_def example_run_def no_debugger_def)

lemma no_snapshot_state: "\<not> has_snapshot_state no_snapshot"
  by (simp add: no_snapshot_def)

lemma example_started:
  "\<exists>saved cl' vm'. initialize example_kvm no_path_checks [] no_snapshot example_run
      (Some (warmup no_path_checks answering_env (warmup_script example_run))) False (idle_client, booting)
    = Some (Inr saved, cl', vm')"
proof -
  have "case initialize example_kvm no_path_checks [] no_snapshot example_run
      (Some (warmup no_path_checks answering_env (warmup_script example_run))) False (idle_client, booting)
    of Some (Inr _, _) \<Rightarrow> True | _ \<Rightarrow> False" by code_simp
  then show ?thesis by (auto split: option.splits sum.splits)
qed

theorem started_program_waits_on_allowed_listener_witness:
  "\<exists>saved cl' vm'. initialize example_kvm no_path_checks [] no_snapshot example_run
      (Some (warmup no_path_checks answering_env (warmup_script example_run))) False (idle_client, booting)
      = Some (Inr saved, cl', vm') \<and>
    m_waiting_for_requests vm' \<and> m_tracked_client_vfd vm' \<noteq> - 1"
proof -
  obtain saved cl' vm' where i: "initialize example_kvm no_path_checks [] no_snapshot example_run
      (Some (warmup no_path_checks answering_env (warmup_script example_run))) False (idle_client, booting)
      = Some (Inr saved, cl', vm')"
    using example_started by blast
  from started_program_waits_on_allowed_listener [OF booting_new i no_snapshot_state example_run_ok] i
  show ?thesis by blast
qed

theorem sampling_mode_never_returns_witness:
  "\<exists>samples vm'. sampling (guest_run no_path_checks new_locals) (sampling_script example_run) (Map.empty, booting)
      = (None, samples, vm') \<and> samples 4096 = Some 2"
proof -
  have "fst (sampling (guest_run no_path_checks new_locals) (sampling_script example_run) (Map.empty, booting)) = None"
    by code_simp
  then obtain samples vm' where s: "sampling (guest_run no_path_checks new_locals) (sampling_script example_run)
      (Map.empty, booting) = (None, samples, vm')"
    by (metis prod.collapse)
  have places: "sampled (guest_run no_path_checks new_locals) (sampling_script example_run) booting = [4096, 4096]"
    by code_simp
  have env: "getenv [''SAMPLING=1''] ''SAMPLING'' \<noteq> None" "getenv [''SAMPLING=1''] ''DEBUG'' = None"
    by code_simp+
  have "samples 4096 = Some 2"
    using sampling_mode_never_returns [OF env no_snapshot_state, THEN conjunct2, rule_format, OF s, of 4096]
    by (simp add: places Let_def)
  with s show ?thesis by blast
qed

text \<open>A server that saves its program, and one that starts from what it saved.\<close>

definition saving :: "nat snapshot_env" where
  "saving = no_snapshot\<lparr>has_snapshot_area := True, user_area := True,
     socket_infos := (\<lambda>fd. (example_listener fd)\<lparr>sock_name := map_option (\<lambda>a. (a, 16)) (example_sock_names fd)\<rparr>)\<rparr>"

definition loading :: "AppSnapshotState \<Rightarrow> nat snapshot_env" where
  "loading state = saving\<lparr>has_snapshot_state := True, saved_state := state\<rparr>"

theorem restart_waits_where_the_program_was_saved_witness:
  "\<exists>state cl' vm' saved cl2 vm2. initialize example_kvm no_path_checks [] saving example_run
      (Some (warmup no_path_checks answering_env (warmup_script example_run))) False (idle_client, booting)
      = Some (Inr (Some state), cl', vm') \<and>
    initialize example_kvm no_path_checks [] (loading state) example_run None False
      (idle_client, booting\<lparr>m_config := default_configuration\<rparr>) = Some (Inr saved, cl2, vm2) \<and>
    m_waiting_for_requests vm2 \<and> m_tracked_client_vfd vm2 = m_tracked_client_vfd vm'"
proof -
  have "case initialize example_kvm no_path_checks [] saving example_run
      (Some (warmup no_path_checks answering_env (warmup_script example_run))) False (idle_client, booting)
    of Some (Inr (Some _), _) \<Rightarrow> True | _ \<Rightarrow> False" by code_simp
  then obtain state cl' vm' where i: "initialize example_kvm no_path_checks [] saving example_run
      (Some (warmup no_path_checks answering_env (warmup_script example_run))) False (idle_client, booting)
      = Some (Inr (Some state), cl', vm')"
    by (auto split: option.splits sum.splits)
  have snap: "\<not> has_snapshot_state saving" "user_area saving"
      "\<forall>fd. example_sock_names fd = map_option fst (sock_name (socket_infos saving fd))"
      "has_snapshot_state (loading state)" "saved_state (loading state) = state"
    by (simp_all add: saving_def loading_def no_snapshot_def option.map_comp comp_def option.map_ident)
  obtain saved cl2 vm2 where j: "initialize example_kvm no_path_checks [] (loading state) example_run None False
      (idle_client, booting) = Some (Inr saved, cl2, vm2)"
    by (simp add: initialize_def initialize_from_file_def loading_def saving_def no_snapshot_def load_state_def
        restore_socket_def all_calls_succeed_def Let_def)
  from restart_waits_where_the_program_was_saved
    [OF booting_new i snap(1,2) example_run_ok snap(3) j snap(4,5), of default_configuration] i
  show ?thesis by fastforce
qed

end
