(* ===== verification/Files.thy ===== *)
theory Files
  imports Elf
begin

text \<open>
  The two ways the server reads a file: \<open>MmapFile\<close> (mmap_file.hpp) maps a program into memory, and
  \<open>file_loader\<close> (file.cpp) reads the dynamic linker into a vector.  What is kept of the process is its
  open descriptors, its mappings and its open streams; the answers of the operating system are
  parameters.
\<close>

section \<open>The process\<close>

text \<open>A mapping is found by its address and has a length and the bytes of the file behind it.\<close>

record process_memory =
  open_fds :: "int list"
  mappings :: "u64 \<rightharpoonup> u64 \<times> u8 list"

text \<open>
  The calls of \<open>MmapFile\<close>: \<open>std::filesystem::exists\<close> and \<open>file_size\<close> may throw, \<open>open\<close> gives a descriptor
  or a negative number, \<open>mmap\<close> an address or \<open>MAP_FAILED\<close>, \<open>madvise\<close> and \<open>munmap\<close> a negative number when
  they fail.
\<close>

record file_calls =
  path_exists :: "string \<Rightarrow> vm_error + bool"
  file_size :: "string \<Rightarrow> vm_error + u64"
  open_rdonly :: "string \<Rightarrow> int"
  mmap_private :: "process_memory \<Rightarrow> string \<Rightarrow> u64 \<Rightarrow> u64"
  file_bytes :: "string \<Rightarrow> u8 list"
  madvise_dontneed :: "u64 \<Rightarrow> u64 \<Rightarrow> int"
  munmap :: "u64 \<Rightarrow> u64 \<Rightarrow> int"

definition MAP_FAILED :: u64 where "MAP_FAILED = - 1"

section \<open>Mapped files\<close>

record MmapFile =
  m_filename :: string
  m_mmap :: u64
  m_size :: u64

text \<open>The constructor.  A null pointer is the address 0.\<close>

definition new_MmapFile :: "file_calls \<Rightarrow> string \<Rightarrow> process_memory \<Rightarrow> (vm_error + MmapFile) \<times> process_memory" where
  "new_MmapFile os filename p =
     (if filename = [] then (Inl (InvalidArgument ''Filename cannot be empty''), p)
      else
        case path_exists os filename of
          Inl err \<Rightarrow> (Inl err, p)
        | Inr False \<Rightarrow> (Inl (RuntimeError (''File does not exist: '' @ filename)), p)
        | Inr True \<Rightarrow>
           (case file_size os filename of
              Inl err \<Rightarrow> (Inl err, p)
            | Inr n \<Rightarrow>
                let fd = open_rdonly os filename
                in if fd < 0 then (Inl (RuntimeError (''Failed to open file: '' @ filename)), p)
                   else
                     let p = p\<lparr>open_fds := fd # open_fds p\<rparr>;
                         a = mmap_private os p filename n;
                         p = (if a = MAP_FAILED then p
                              else p\<lparr>mappings := (mappings p)(a \<mapsto> (n, file_bytes os filename))\<rparr>);
                         p = p\<lparr>open_fds := remove1 fd (open_fds p)\<rparr>
                     in if a = MAP_FAILED then (Inl (RuntimeError (''Failed to mmap file: '' @ filename)), p)
                        else (Inr \<lparr>m_filename = filename, m_mmap = a, m_size = n\<rparr>, p)))"

definition not_mapped :: "MmapFile \<Rightarrow> vm_error" where
  "not_mapped f = RuntimeError (''MmapFile is not mapped: '' @ m_filename f)"

definition data_of :: "MmapFile \<Rightarrow> vm_error + u64" where
  "data_of f = (if m_mmap f = 0 then Inl (not_mapped f) else Inr (m_mmap f))"

definition size_of :: "MmapFile \<Rightarrow> vm_error + u64" where
  "size_of f = (if m_mmap f = 0 then Inl (not_mapped f) else Inr (m_size f))"

text \<open>A view is an address and a length.\<close>

definition view :: "MmapFile \<Rightarrow> vm_error + (u64 \<times> u64)" where
  "view f = (if m_mmap f = 0 then Inl (not_mapped f) else Inr (m_mmap f, m_size f))"

text \<open>What a read through a view gives: the view must lie in a mapping that is still there.\<close>

definition read_view :: "process_memory \<Rightarrow> u64 \<times> u64 \<Rightarrow> vm_error + u8 list" where
  "read_view p v =
     (case mappings p (fst v) of
        Some (n, bytes) \<Rightarrow> if snd v \<le> n then Inr (take (unat (snd v)) bytes) else Inl (UndefinedRead ''view'')
      | None \<Rightarrow> Inl (UndefinedRead ''view''))"

text \<open>
  \<open>dontneed\<close> drops the pages, which the kernel reads again from the file when they are used: the mapping
  stays, the object forgets it.
\<close>

definition dontneed :: "file_calls \<Rightarrow> MmapFile \<Rightarrow> vm_error + MmapFile" where
  "dontneed os f =
     (if m_mmap f \<noteq> 0 then
        (if madvise_dontneed os (m_mmap f) (m_size f) < 0
         then Inl (RuntimeError (''Failed to advise MADV_DONTNEED on mmap: '' @ m_filename f))
         else Inr (f\<lparr>m_mmap := 0, m_size := 0\<rparr>))
      else Inr f)"

text \<open>The destructor; a failure of \<open>munmap\<close> is only reported.\<close>

definition destroy :: "file_calls \<Rightarrow> MmapFile \<Rightarrow> process_memory \<Rightarrow> process_memory" where
  "destroy os f p =
     (if m_mmap f \<noteq> 0 \<and> 0 \<le> munmap os (m_mmap f) (m_size f)
      then p\<lparr>mappings := (mappings p)(m_mmap f := None)\<rparr> else p)"

section \<open>The file loader\<close>

record file_status =
  st_size :: int
  is_regular :: bool
  is_symlink :: bool

text \<open>
  The calls of \<open>file_loader\<close>: the status of the file or \<open>None\<close>, whether opening and seeking succeed, the
  position at the end, whether a vector of that size can be allocated, and the bytes \<open>fread\<close> stores.
\<close>

record stdio_calls =
  stat_file :: "string \<Rightarrow> file_status option"
  fopen_rb :: "string \<Rightarrow> bool"
  fseek_end :: "string \<Rightarrow> int"
  ftell :: "string \<Rightarrow> int"
  fseek_start :: "string \<Rightarrow> int"
  can_allocate :: "nat \<Rightarrow> bool"
  fread :: "string \<Rightarrow> nat \<Rightarrow> u8 list"

definition file_failure :: "string \<Rightarrow> string \<Rightarrow> vm_error" where
  "file_failure what filename = RuntimeError (what @ filename)"

text \<open>With the open streams of the process, by the names of their files.\<close>

definition file_loader :: "stdio_calls \<Rightarrow> string \<Rightarrow> string list \<Rightarrow> (vm_error + u8 list) \<times> string list" where
  "file_loader c filename streams =
     (case stat_file c filename of
        None \<Rightarrow> (Inl (file_failure ''Failed to stat file: '' filename), streams)
      | Some s \<Rightarrow>
          if st_size s = 0 then (Inl (file_failure ''File is empty: '' filename), streams)
          else if \<not> is_regular s \<and> \<not> is_symlink s then
            (Inl (file_failure ''File is not a regular file: '' filename), streams)
          else if \<not> fopen_rb c filename then (Inl (file_failure ''Failed to open file: '' filename), streams)
          else
            let streams = filename # streams; closed = remove1 filename streams
            in if fseek_end c filename \<noteq> 0 then
                 (Inl (file_failure ''Failed to seek to end of file: '' filename), closed)
               else
                 let n = ftell c filename
                 in if n < 0 then (Inl (file_failure ''Failed to determine file size: '' filename), closed)
                    else if fseek_start c filename \<noteq> 0 then
                      (Inl (file_failure ''Failed to seek to start of file: '' filename), closed)
                    else if \<not> can_allocate c (nat n) then (Inl BadAlloc, streams)
                    else
                      let bytes = fread c filename (nat n)
                      in if int (length bytes) \<noteq> n then
                           (Inl (file_failure ''Failed to read file: '' filename), closed)
                         else (Inr bytes, closed))"

section \<open>Start of the hypervisor\<close>

record kvm_globals =
  sigpipe_ignored :: bool
  ld_linux_x86_64_so :: "u8 list"
  kvm_initialized :: bool

text \<open>\<open>machine_init\<close> is the exception \<open>tinykvm::Machine::init\<close> throws, if any.\<close>

definition init_kvm ::
  "stdio_calls \<Rightarrow> vm_error option \<Rightarrow> string list \<times> kvm_globals \<Rightarrow> vm_error option \<times> string list \<times> kvm_globals" where
  "init_kvm c machine_init = (\<lambda>(streams, g).
     let g = g\<lparr>sigpipe_ignored := True\<rparr>;
         (ld, streams) = file_loader c ''/lib64/ld-linux-x86-64.so.2'' streams
     in case ld of
          Inl err \<Rightarrow> (Some err, streams, g)
        | Inr ld \<Rightarrow>
            let g = g\<lparr>ld_linux_x86_64_so := ld\<rparr>
            in case machine_init of
                 Some err \<Rightarrow> (Some err, streams, g)
               | None \<Rightarrow> (None, streams, g\<lparr>kvm_initialized := True\<rparr>))"

section \<open>The life of a mapped file\<close>

text \<open>
  What \<open>mmap\<close> promises when it chooses the address: it is not null and nothing is mapped there.
\<close>

definition mmap_fresh :: "file_calls \<Rightarrow> bool" where
  "mmap_fresh os \<longleftrightarrow> (\<forall>p filename n. mmap_private os p filename n \<noteq> MAP_FAILED \<longrightarrow>
     mmap_private os p filename n \<noteq> 0 \<and> mappings p (mmap_private os p filename n) = None)"

text \<open>The size of a file is the number of its bytes.\<close>

definition sizes_agree :: "file_calls \<Rightarrow> bool" where
  "sizes_agree os \<longleftrightarrow> (\<forall>filename n. file_size os filename = Inr n \<longrightarrow> length (file_bytes os filename) = unat n)"

text \<open>Uses of the object between construction and destruction; the first exception ends them.\<close>

datatype file_use = UseData | UseSize | UseView | UseDontneed

fun use_once :: "file_calls \<Rightarrow> file_use \<Rightarrow> MmapFile \<Rightarrow> vm_error + MmapFile" where
  "use_once os UseData f = then_do (data_of f) (\<lambda>_. Inr f)"
| "use_once os UseSize f = then_do (size_of f) (\<lambda>_. Inr f)"
| "use_once os UseView f = then_do (view f) (\<lambda>_. Inr f)"
| "use_once os UseDontneed f = dontneed os f"

fun use_file :: "file_calls \<Rightarrow> file_use list \<Rightarrow> MmapFile \<Rightarrow> MmapFile" where
  "use_file os [] f = f"
| "use_file os (u # us) f = (case use_once os u f of Inl _ \<Rightarrow> f | Inr f' \<Rightarrow> use_file os us f')"

lemma new_MmapFile_fails:
  assumes "new_MmapFile os filename p = (Inl err, p')"
  shows "p' = p"
  using assms by (auto simp: new_MmapFile_def Let_def split: if_splits sum.splits bool.splits)

lemma new_MmapFile_maps:
  assumes "new_MmapFile os filename p = (Inr f, p')"
  obtains n where "file_size os filename = Inr n" "m_size f = n" "m_filename f = filename" "filename \<noteq> []"
    "m_mmap f \<noteq> MAP_FAILED" "mmap_fresh os \<Longrightarrow> m_mmap f \<noteq> 0 \<and> mappings p (m_mmap f) = None"
    "p' = p\<lparr>mappings := (mappings p)(m_mmap f \<mapsto> (n, file_bytes os filename))\<rparr>"
proof -
  from assms obtain n fd where n: "filename \<noteq> []" "file_size os filename = Inr n" "m_filename f = filename"
      "m_mmap f = mmap_private os (p\<lparr>open_fds := fd # open_fds p\<rparr>) filename n" "m_size f = n"
      "m_mmap f \<noteq> MAP_FAILED" "p' = p\<lparr>mappings := (mappings p)(m_mmap f \<mapsto> (n, file_bytes os filename))\<rparr>"
    by (auto simp: new_MmapFile_def Let_def split: if_splits sum.splits bool.splits)
  have "m_mmap f \<noteq> 0 \<and> mappings p (m_mmap f) = None" if "mmap_fresh os"
    using that [unfolded mmap_fresh_def, rule_format, OF n(6) [unfolded n(4)]] by (simp add: n(4))
  with n that show thesis by blast
qed

lemma use_dropped_file: "m_mmap f = 0 \<Longrightarrow> use_file os us f = f"
proof (induction us)
  case (Cons u us)
  then show ?case by (cases u) (auto simp: data_of_def size_of_def view_def dontneed_def)
qed simp

lemma use_mapped_file:
  assumes "m_mmap f \<noteq> 0" "0 \<le> madvise_dontneed os (m_mmap f) (m_size f)"
  shows "use_file os us f = (if UseDontneed \<in> set us then f\<lparr>m_mmap := 0, m_size := 0\<rparr> else f)"
proof (induction us)
  case (Cons u us)
  then show ?case using assms
    by (cases u) (auto simp: data_of_def size_of_def view_def dontneed_def use_dropped_file)
qed simp

lemma read_whole_file:
  assumes "new_MmapFile os filename p = (Inr f, p')" "mmap_fresh os" "sizes_agree os"
  shows "view f = Inr (m_mmap f, m_size f)" "read_view p' (m_mmap f, m_size f) = Inr (file_bytes os filename)"
proof -
  obtain n where n: "file_size os filename = Inr n" "m_size f = n" "m_mmap f \<noteq> 0"
      "p' = p\<lparr>mappings := (mappings p)(m_mmap f \<mapsto> (n, file_bytes os filename))\<rparr>"
    using new_MmapFile_maps [OF assms(1)] assms(2) by metis
  show "view f = Inr (m_mmap f, m_size f)" using n(3) by (simp add: view_def)
  show "read_view p' (m_mmap f, m_size f) = Inr (file_bytes os filename)"
    using assms(3) n(1,2,4) by (simp add: read_view_def sizes_agree_def)
qed

text \<open>
  C14: The life of a mapped file.  The constructor closes its descriptor and, when it throws, leaves
  nothing behind; a view of the object reads the whole file.  After any use the destructor removes the
  mapping and nothing else, except after \<open>dontneed\<close>, which leaves the mapping in place for good: a view
  taken before stays readable.  It is assumed that \<open>madvise\<close> and \<open>munmap\<close> succeed.
\<close>

theorem mapped_file_lifetime:
  assumes "mmap_fresh os" "sizes_agree os"
    and "\<And>a n. 0 \<le> madvise_dontneed os a n" "\<And>a n. 0 \<le> munmap os a n"
  shows "case new_MmapFile os filename p of
      (Inl err, p1) \<Rightarrow> p1 = p
    | (Inr f, p1) \<Rightarrow>
        open_fds p1 = open_fds p \<and>
        (\<exists>v. view f = Inr v \<and> read_view p1 v = Inr (file_bytes os filename) \<and>
          (let p2 = destroy os (use_file os us f) p1
           in if UseDontneed \<in> set us then read_view p2 v = Inr (file_bytes os filename) else p2 = p))"
proof (cases "new_MmapFile os filename p")
  case (Pair r p1)
  show ?thesis
  proof (cases r)
    case (Inl err)
    then show ?thesis using Pair new_MmapFile_fails by simp
  next
    case (Inr f)
    note new = Pair [unfolded Inr]
    obtain n where a: "m_mmap f \<noteq> 0" "mappings p (m_mmap f) = None"
        and n: "p1 = p\<lparr>mappings := (mappings p)(m_mmap f \<mapsto> (n, file_bytes os filename))\<rparr>"
      using new_MmapFile_maps [OF new] assms(1) by metis
    have "(mappings p)(m_mmap f := None) = mappings p" using a(2) by (simp add: fun_upd_idem)
    then have "p\<lparr>mappings := (mappings p)(m_mmap f := None)\<rparr> = p" by simp
    then show ?thesis
      using new n a(1) read_whole_file [OF new assms(1,2)] use_mapped_file [OF a(1) assms(3)] assms(4)
      by (simp add: destroy_def Let_def)
  qed
qed

section \<open>What the file loader returns and leaves open\<close>

text \<open>
  C15: The file loader gives the whole of a file that is not empty, exactly as many bytes as its size, and
  closes its stream on every path but one: when the vector cannot be allocated the exception passes
  without closing it.
\<close>

theorem file_loader_closes_its_stream:
  "case file_loader c filename streams of
     (r, streams') \<Rightarrow>
       streams' = (if r = Inl BadAlloc then filename # streams else streams) \<and>
       (\<forall>bytes. r = Inr bytes \<longleftrightarrow>
          (\<exists>s. stat_file c filename = Some s \<and> st_size s \<noteq> 0 \<and> (is_regular s \<or> is_symlink s)) \<and>
          fopen_rb c filename \<and> fseek_end c filename = 0 \<and> fseek_start c filename = 0 \<and>
          ftell c filename = int (length bytes) \<and> can_allocate c (length bytes) \<and>
          bytes = fread c filename (length bytes))"
proof (cases "ftell c filename < 0")
  case True
  then show ?thesis by (auto simp: file_loader_def file_failure_def Let_def split: option.splits)
next
  case False
  then obtain n where "ftell c filename = int n" by (metis nonneg_int_cases not_less)
  then show ?thesis by (auto simp: file_loader_def file_failure_def Let_def split: option.splits)
qed

section \<open>Witnesses\<close>

text \<open>A process whose files have three bytes and are mapped at 4096 and 8192.\<close>

definition example_files :: file_calls where
  "example_files = \<lparr>path_exists = (\<lambda>_. Inr True), file_size = (\<lambda>_. Inr 3), open_rdonly = (\<lambda>_. 5),
     mmap_private = (\<lambda>p _ _. if mappings p 4096 = None then 4096
       else if mappings p 8192 = None then 8192 else MAP_FAILED), file_bytes = (\<lambda>_. [1, 2, 3]),
     madvise_dontneed = (\<lambda>_ _. 0), munmap = (\<lambda>_ _. 0)\<rparr>"

definition empty_process :: process_memory where
  "empty_process = \<lparr>open_fds = [0, 1, 2], mappings = (\<lambda>_. None)\<rparr>"

lemma example_files_ok:
  "mmap_fresh example_files" "sizes_agree example_files"
  "0 \<le> madvise_dontneed example_files a n" "0 \<le> munmap example_files a n"
  by (simp_all add: mmap_fresh_def sizes_agree_def example_files_def)

theorem mapped_file_lifetime_witness:
  "\<exists>f p1. new_MmapFile example_files ''/srv/app'' empty_process = (Inr f, p1) \<and>
     destroy example_files (use_file example_files [UseView, UseSize] f) p1 = empty_process"
proof -
  have "mmap_fresh example_files" "sizes_agree example_files"
    "\<And>a n. 0 \<le> madvise_dontneed example_files a n" "\<And>a n. 0 \<le> munmap example_files a n"
    by (rule example_files_ok)+
  note life = mapped_file_lifetime [OF this, where filename = "''/srv/app''" and p = empty_process and us = "[UseView, UseSize]"]
  obtain f p1 where new: "new_MmapFile example_files ''/srv/app'' empty_process = (Inr f, p1)"
    by (simp add: new_MmapFile_def example_files_def empty_process_def Let_def MAP_FAILED_def)
  then show ?thesis using life by (auto simp: Let_def)
qed

end
