(* ===== verification/Server.thy ===== *)
theory Server
  imports Initialize Files
begin

text \<open>
  \<open>main\<close> up to the fork threads (main.cpp): how the machines are created, linked and initialised, its exit
  codes, and the loop of a single machine.
\<close>

section \<open>Starting up\<close>

text \<open>
  How far \<open>main\<close> gets: it returns an exit code, is aborted, keeps the one machine it has, or forks.
\<close>

datatype 'm startup =
    Exit int
  | Aborted
  | ServeAlone "'m VirtualMachine"
  | ServeForks "'m VirtualMachine" "'m VirtualMachine option"

text \<open>
  The state of the process: its open streams, the global variables of the hypervisor, its descriptors and
  mappings, the two mapped files of \<open>main\<close> once they are made, and the variables of the warm-up client.
\<close>

record server_state =
  streams :: "string list"
  kvm :: kvm_globals
  process :: process_memory
  binary_file :: "MmapFile option"
  storage_file :: "MmapFile option"
  client :: warmup_client

text \<open>The operating system, and the exception of the initialisation of the hypervisor, if any.\<close>

record server_os =
  file_os :: file_calls
  stdio_os :: stdio_calls
  machine_init :: "vm_error option"

text \<open>
  Everything outside the server: the hypervisor with its path checks, the environment variables, the
  operating system, the snapshots and the behaviour of the two programs, and what the connections of the
  warm-up client meet.
\<close>

record ('m, 'e) world =
  hypervisor :: "'m tinykvm"
  path_access :: path_checks
  variables :: "string list"
  system :: server_os
  main_snapshot :: "'e snapshot_env"
  storage_snapshot :: "'e snapshot_env"
  main_program :: "'m program_run"
  storage_program :: "'m program_run"
  warmup_peers :: client_env

type_synonym 'a main_step = "(server_state, vm_error, 'a) program"

definition init_globals :: "server_os \<Rightarrow> unit main_step" where
  "init_globals os s =
     (case init_kvm (stdio_os os) (machine_init os) (streams s, kvm s) of
        (r, opened, g) \<Rightarrow>
          Some (case r of None \<Rightarrow> Inr () | Some err \<Rightarrow> Inl err, s\<lparr>streams := opened, kvm := g\<rparr>))"

definition keep_binary :: "MmapFile \<Rightarrow> server_state \<Rightarrow> server_state" where
  "keep_binary f s = s\<lparr>binary_file := Some f\<rparr>"

definition keep_storage :: "MmapFile \<Rightarrow> server_state \<Rightarrow> server_state" where
  "keep_storage f s = s\<lparr>storage_file := Some f\<rparr>"

definition map_file :: "server_os \<Rightarrow> string \<Rightarrow> (MmapFile \<Rightarrow> server_state \<Rightarrow> server_state) \<Rightarrow> MmapFile main_step" where
  "map_file os path keep s =
     (case new_MmapFile (file_os os) path (process s) of
        (Inl err, p) \<Rightarrow> Some (Inl err, s\<lparr>process := p\<rparr>)
      | (Inr f, p) \<Rightarrow> Some (Inr f, keep f (s\<lparr>process := p\<rparr>)))"

definition drop_pages :: "server_os \<Rightarrow> MmapFile \<Rightarrow> (MmapFile \<Rightarrow> server_state \<Rightarrow> server_state) \<Rightarrow> unit main_step" where
  "drop_pages os f keep s =
     (case dontneed (file_os os) f of Inl err \<Rightarrow> Some (Inl err, s) | Inr f \<Rightarrow> Some (Inr (), keep f s))"

text \<open>The bytes a machine is made from: those of the view of a mapped file.\<close>

definition load_view :: "process_memory \<Rightarrow> MmapFile \<Rightarrow> vm_error + u8 list" where
  "load_view p f = then_do (view f) (read_view p)"

definition make_machine ::
  "('m, 'e) world \<Rightarrow> Configuration \<Rightarrow> MmapFile \<Rightarrow> bool \<Rightarrow> 'm VirtualMachine main_step" where
  "make_machine w config f is_storage s =
     lift_result (then_do (load_view (process s) f) (\<lambda>binary.
       new_machine (hypervisor w) (ld_linux_x86_64_so (kvm s)) binary config is_storage)) s"

text \<open>An operation on a machine and the client.\<close>

definition on_machine :: "('m init_state, vm_error, 'a) program \<Rightarrow> 'm VirtualMachine \<Rightarrow> 'm VirtualMachine main_step" where
  "on_machine m vm s =
     (case m (client s, vm) of
        None \<Rightarrow> None
      | Some (Inl err, cl, _) \<Rightarrow> Some (Inl err, s\<lparr>client := cl\<rparr>)
      | Some (Inr _, cl, vm) \<Rightarrow> Some (Inr vm, s\<lparr>client := cl\<rparr>))"

text \<open>\<open>remote_serializer\<close>: a mutex lets one thread at a time into the storage machine.\<close>

definition serialize_remote :: "'m VirtualMachine \<Rightarrow> 'm VirtualMachine" where
  "serialize_remote vm = vm\<lparr>m_machine := (m_machine vm)\<lparr>remote_serializer := True\<rparr>\<rparr>"

lemma serialize_remote_fields [simp]:
  "m_config (serialize_remote vm) = m_config vm" "m_original_binary (serialize_remote vm) = m_original_binary vm"
  "m_is_storage (serialize_remote vm) = m_is_storage vm" "m_fds (serialize_remote vm) = m_fds vm"
  by (simp_all add: serialize_remote_def)

text \<open>The storage machine: an exit code, or the machine when there is one.\<close>

definition load_storage ::
  "('m, 'e) world \<Rightarrow> Configuration \<Rightarrow> (int + 'm VirtualMachine option) main_step" where
  "load_storage w config =
     (if storage config then
        and_then (map_file (system w) (storage_filename config) keep_storage) (\<lambda>f.
        and_then (make_machine w config f True) (\<lambda>vm.
        and_then (on_machine (initialize (hypervisor w) (path_access w) (variables w) (storage_snapshot w)
                    (storage_program w) None False) (serialize_remote vm)) (\<lambda>vm.
          if \<not> m_waiting_for_requests vm then lift_result (Inr (Inl 1))
          else
            and_then (drop_pages (system w) f keep_storage) (\<lambda>_. lift_result (Inr (Inr (Some vm)))))))
      else lift_result (Inr (Inr None)))"

definition just_one_vm :: "Configuration \<Rightarrow> bool" where
  "just_one_vm config \<longleftrightarrow> concurrency config = 1 \<and> \<not> ephemeral config"

text \<open>The machine of the program, linked to the storage machine: an exit code or the machine.\<close>

definition link_storage :: "Configuration \<Rightarrow> 'm VirtualMachine option \<Rightarrow> 'm VirtualMachine \<Rightarrow> 'm VirtualMachine" where
  "link_storage config storage_vm vm =
     (case storage_vm of None \<Rightarrow> vm | Some s \<Rightarrow> connect_storage config s vm)"

definition start_program ::
  "('m, 'e) world \<Rightarrow> Configuration \<Rightarrow> 'm VirtualMachine option \<Rightarrow> MmapFile \<Rightarrow> (int + 'm VirtualMachine) main_step" where
  "start_program w config storage_vm f =
     and_then (make_machine w config f False) (\<lambda>vm.
     and_then (on_machine (initialize (hypervisor w) (path_access w) (variables w) (main_snapshot w) (main_program w)
                 (Some (warmup (path_access w) (warmup_peers w) (warmup_script (main_program w))))
                 (just_one_vm config)) (link_storage config storage_vm vm)) (\<lambda>vm.
       lift_result (Inr (if \<not> m_waiting_for_requests vm then Inl (if just_one_vm config then 0 else 1) else Inr vm))))"

text \<open>A single machine does its polling system call again before its loop.\<close>

definition serve_single :: "'m VirtualMachine \<Rightarrow> vm_error + 'm startup" where
  "serve_single vm = then_do (restart_poll_syscall vm) (\<lambda>_. Inr (ServeAlone vm))"

text \<open>What \<open>main\<close> does with a program that waits.\<close>

definition begin_serving ::
  "Configuration \<Rightarrow> 'm VirtualMachine option \<Rightarrow> 'm VirtualMachine \<Rightarrow> vm_error + 'm startup" where
  "begin_serving config storage_vm vm =
     (if storage_1_to_1 config \<and> \<not> just_one_vm config then
        (case storage_vm of
           None \<Rightarrow> Inr (Exit 1)
         | Some s \<Rightarrow> Inr (ServeForks vm (Some (s\<lparr>m_machine := (m_machine s)\<lparr>cow_memory := Some 0\<rparr>\<rparr>))))
      else if just_one_vm config then serve_single vm
      else Inr (ServeForks vm storage_vm))"

definition load_program ::
  "('m, 'e) world \<Rightarrow> Configuration \<Rightarrow> MmapFile \<Rightarrow> 'm VirtualMachine option \<Rightarrow> 'm startup main_step" where
  "load_program w config f storage_vm =
     and_then (start_program w config storage_vm f) (\<lambda>res.
       case res of
         Inl code \<Rightarrow> lift_result (Inr (Exit code))
       | Inr vm \<Rightarrow>
           and_then (drop_pages (system w) f keep_binary) (\<lambda>_. lift_result (begin_serving config storage_vm vm)))"

text \<open>The body of \<open>main\<close> up to the start of the threads.\<close>

definition main_body :: "('m, 'e) world \<Rightarrow> Configuration \<Rightarrow> 'm startup main_step" where
  "main_body w config =
     and_then (init_globals (system w)) (\<lambda>_.
     and_then (map_file (system w) (main_filename config) keep_binary) (\<lambda>f.
     and_then (load_storage w config) (\<lambda>res.
       case res of
         Inl code \<Rightarrow> lift_result (Inr (Exit code))
       | Inr storage_vm \<Rightarrow> load_program w config f storage_vm)))"

text \<open>
  The end of \<open>main\<close>: the mapped files are destroyed, the storage program's first.  After it, the vector of
  client threads is destroyed, which aborts the process when one of them is still to be joined.
\<close>

definition destroy_file :: "server_os \<Rightarrow> MmapFile option \<Rightarrow> process_memory \<Rightarrow> process_memory" where
  "destroy_file os f p = (case f of None \<Rightarrow> p | Some f \<Rightarrow> destroy (file_os os) f p)"

definition leave_main :: "server_os \<Rightarrow> int \<Rightarrow> server_state \<Rightarrow> 'm startup \<times> server_state" where
  "leave_main os code s =
     (if joinable_threads (client s) = [] then Exit code else Aborted,
      s\<lparr>process := destroy_file os (binary_file s) (destroy_file os (storage_file s) (process s)),
        binary_file := None, storage_file := None\<rparr>)"

text \<open>\<open>main\<close>: every exception ends it with code 1.\<close>

definition server_main ::
  "('m, 'e) world \<Rightarrow> Configuration \<Rightarrow> server_state \<Rightarrow> ('m startup \<times> server_state) option" where
  "server_main w config s =
     (case main_body w config s of
        None \<Rightarrow> None
      | Some (Inl err, s) \<Rightarrow> Some (leave_main (system w) 1 s)
      | Some (Inr (Exit code), s) \<Rightarrow> Some (leave_main (system w) code s)
      | Some (Inr x, s) \<Rightarrow> Some (x, s))"

section \<open>Properties of the start\<close>

text \<open>What the steps of \<open>main\<close> have done when they return.\<close>

lemma init_globals_returns:
  "init_globals os s = Some (Inr (), s') \<Longrightarrow> process s' = process s \<and> client s' = client s"
  by (auto simp: init_globals_def split: prod.splits option.splits)

lemma map_file_returns:
  "map_file os path keep s = Some (Inr f, s') \<longleftrightarrow>
     (\<exists>p. new_MmapFile (file_os os) path (process s) = (Inr f, p) \<and> s' = keep f (s\<lparr>process := p\<rparr>))"
  by (auto simp: map_file_def split: prod.splits sum.splits)

lemma drop_pages_returns:
  "drop_pages os f keep s = Some (Inr u, s') \<longleftrightarrow> (\<exists>f'. dontneed (file_os os) f = Inr f' \<and> s' = keep f' s)"
  by (auto simp: drop_pages_def split: sum.splits)

lemma make_machine_returns:
  "make_machine w config f is_storage s = Some (Inr vm, s') \<longleftrightarrow>
     s' = s \<and> (\<exists>binary. load_view (process s) f = Inr binary \<and>
       new_machine (hypervisor w) (ld_linux_x86_64_so (kvm s)) binary config is_storage = Inr vm)"
  unfolding make_machine_def lift_result_iff then_do_Inr_iff [symmetric] by auto

lemma on_machine_returns:
  "on_machine m vm s = Some (Inr vm', s') \<longleftrightarrow>
     (\<exists>x cl. m (client s, vm) = Some (Inr x, cl, vm') \<and> s' = s\<lparr>client := cl\<rparr>)"
  by (auto simp: on_machine_def split: option.splits sum.splits)

lemma keep_fields [simp]:
  "process (keep_binary f s) = process s" "process (keep_storage f s) = process s"
  "client (keep_binary f s) = client s" "client (keep_storage f s) = client s"
  "kvm (keep_binary f s) = kvm s" "kvm (keep_storage f s) = kvm s"
  by (simp_all add: keep_binary_def keep_storage_def)

lemmas main_returns = and_then_returns_iff and_then_lifted_returns_iff map_file_returns drop_pages_returns
  make_machine_returns on_machine_returns

lemma load_storage_returns:
  assumes "load_storage w config s = Some (Inr (Inr storage_vm), s')"
  obtains (none) "\<not> storage config" "storage_vm = None" "s' = s"
  | (some) f p binary ld vm0 saved cl cl' vm where "storage config" "storage_vm = Some vm"
      "new_MmapFile (file_os (system w)) (storage_filename config) (process s) = (Inr f, p)" "process s' = p"
      "new_machine (hypervisor w) ld binary config True = Inr vm0"
      "initialize (hypervisor w) (path_access w) (variables w) (storage_snapshot w) (storage_program w) None False
         (cl, serialize_remote vm0) = Some (Inr saved, cl', vm)"
  using assms by (auto simp: load_storage_def main_returns split: if_splits)

text \<open>Mapping the storage program leaves the other mappings alone.\<close>

lemma load_storage_keeps_mappings:
  assumes "mmap_fresh (file_os (system w))" "mappings (process s) a = Some x"
    and "load_storage w config s = Some (Inr (Inr storage_vm), s')"
  shows "mappings (process s') a = Some x"
  using assms(3)
proof (cases rule: load_storage_returns)
  case (some f p binary ld vm0 saved cl cl' vm)
  obtain n where "mappings (process s) (m_mmap f) = None"
      "p = (process s)\<lparr>mappings := (mappings (process s))(m_mmap f \<mapsto> (n, file_bytes (file_os (system w)) (storage_filename config)))\<rparr>"
    using new_MmapFile_maps [OF some(3)] assms(1) by metis
  then show ?thesis using assms(2) some(4) by auto
qed (use assms(2) in simp)

lemma load_program_serves:
  assumes "load_program w config f storage_vm s = Some (Inr x, s')" "x = ServeAlone vm \<or> x = ServeForks vm sv"
  obtains binary vm0 saved cl' where "load_view (process s) f = Inr binary"
    "new_machine (hypervisor w) (ld_linux_x86_64_so (kvm s)) binary config False = Inr vm0"
    "initialize (hypervisor w) (path_access w) (variables w) (main_snapshot w) (main_program w)
       (Some (warmup (path_access w) (warmup_peers w) (warmup_script (main_program w)))) (just_one_vm config)
       (client s, link_storage config storage_vm vm0) = Some (Inr saved, cl', vm)"
    "m_waiting_for_requests vm" "process s' = process s"
    "begin_serving config storage_vm vm = Inr x"
proof -
  obtain v s1 f' where v: "start_program w config storage_vm f s = Some (Inr (Inr v), s1)"
      "begin_serving config storage_vm v = Inr x" "s' = keep_binary f' s1"
  proof -
    obtain res s1 where res: "start_program w config storage_vm f s = Some (Inr res, s1)"
        "(case res of Inl code \<Rightarrow> lift_result (Inr (Exit code))
          | Inr vm \<Rightarrow> and_then (drop_pages (system w) f keep_binary)
              (\<lambda>_. lift_result (begin_serving config storage_vm vm))) s1 = Some (Inr x, s')"
      using assms(1) by (auto simp: load_program_def and_then_returns_iff)
    then show thesis using that assms(2) by (cases res) (auto simp: main_returns)
  qed
  have "v = vm"
    using v(2) assms(2) by (auto simp: begin_serving_def serve_single_def then_do_Inr_iff split: if_splits option.splits)
  then show thesis
    using that v by (auto simp: start_program_def main_returns split: if_splits)
qed

lemma server_main_serves:
  assumes "server_main w config s = Some (x, s')" "x = ServeAlone vm \<or> x = ServeForks vm sv"
  obtains f p s1 storage_vm s2 where
    "new_MmapFile (file_os (system w)) (main_filename config) (process s) = (Inr f, p)"
    "process s1 = p" "load_storage w config s1 = Some (Inr (Inr storage_vm), s2)"
    "load_program w config f storage_vm s2 = Some (Inr x, s')"
proof -
  have "main_body w config s = Some (Inr x, s')"
    using assms by (auto simp: server_main_def leave_main_def split: option.splits sum.splits startup.splits if_splits)
  then obtain s0 f s1 res s2 where steps: "init_globals (system w) s = Some (Inr (), s0)"
      "map_file (system w) (main_filename config) keep_binary s0 = Some (Inr f, s1)"
      "load_storage w config s1 = Some (Inr res, s2)"
      "(case res of Inl code \<Rightarrow> lift_result (Inr (Exit code)) | Inr storage_vm \<Rightarrow> load_program w config f storage_vm) s2
        = Some (Inr x, s')"
    by (auto simp: main_body_def and_then_returns_iff)
  obtain storage_vm where res: "res = Inr storage_vm" using steps(4) assms(2) by (cases res) auto
  obtain p where p: "new_MmapFile (file_os (system w)) (main_filename config) (process s) = (Inr f, p)" "process s1 = p"
    using steps(2) init_globals_returns [OF steps(1)] by (auto simp: map_file_returns)
  show thesis by (rule that [OF p]) (use steps(3,4) res in simp_all)
qed

lemma link_storage_fields:
  "m_config (link_storage config sv vm) = m_config vm" "m_fds (link_storage config sv vm) = m_fds vm"
  "m_original_binary (link_storage config sv vm) = m_original_binary vm"
  "m_waiting_for_requests (link_storage config sv vm) = m_waiting_for_requests vm"
  "m_poll_method (link_storage config sv vm) = m_poll_method vm"
  "m_tracked_client_vfd (link_storage config sv vm) = m_tracked_client_vfd vm"
  "m_tracked_client_fd (link_storage config sv vm) = m_tracked_client_fd vm"
  "m_is_storage (link_storage config sv vm) = m_is_storage vm"
  "m_ephemeral (link_storage config sv vm) = m_ephemeral vm"
  "m_blocking_connections (link_storage config sv vm) = m_blocking_connections vm"
  by (simp_all add: link_storage_def connect_storage_def split: option.splits)

lemma linked_boot_inv:
  assumes "new_machine k ld binary config False = Inr vm"
  shows "boot_inv checks sock_names (prepare_boot k (link_storage config sv vm))"
  using assms by (auto simp: new_machine_def then_do_Inr_iff prepare_boot_def Let_def boot_inv_def new_fds_def
      link_storage_fields)

text \<open>The machines that are served, or forked.\<close>

fun served :: "'m startup \<Rightarrow> 'm VirtualMachine list" where
  "served (Exit code) = []"
| "served Aborted = []"
| "served (ServeAlone vm) = [vm]"
| "served (ServeForks vm storage_vm) = vm # (case storage_vm of None \<Rightarrow> [] | Some s \<Rightarrow> [s])"

text \<open>Each of them has the configuration of the server and guards its files and addresses.\<close>

lemma new_machine_keeps:
  assumes "new_machine k ld binary config is_storage = Inr vm" "same_program (link_storage config sv vm) vm'"
  shows "m_config vm' = config" "m_original_binary vm' = binary" "guarded vm'"
  using new_machine_program [OF assms(1)] guards_new_machine [OF assms(1)] assms(2)
  by (simp_all add: same_program_def guarded_def guards_def link_storage_fields)

lemma load_storage_machine:
  assumes "load_storage w config s = Some (Inr (Inr (Some vm)), s')"
  shows "m_config vm = config" "guarded vm"
proof -
  obtain ld binary vm0 cl saved cl' where vm0: "new_machine (hypervisor w) ld binary config True = Inr vm0"
      "initialize (hypervisor w) (path_access w) (variables w) (storage_snapshot w) (storage_program w) None False
         (cl, serialize_remote vm0) = Some (Inr saved, cl', vm)"
    using assms by (cases rule: load_storage_returns) auto
  have "same_program (link_storage config None vm0) vm"
    using initialize_same_program [OF vm0(2)] by (simp add: link_storage_def same_program_def guards_def)
  from new_machine_keeps [OF vm0(1) this] show "m_config vm = config" "guarded vm" by simp_all
qed

lemma served_machines:
  assumes "server_main w config s = Some (x, s')" "vm \<in> set (served x)"
  shows "m_config vm = config \<and> guarded vm"
proof -
  obtain vm1 sv where x: "x = ServeAlone vm1 \<or> x = ServeForks vm1 sv" using assms(2) by (cases x) auto
  obtain f s1 storage_vm s2 where
    m: "load_storage w config s1 = Some (Inr (Inr storage_vm), s2)"
      "load_program w config f storage_vm s2 = Some (Inr x, s')"
    by (rule server_main_serves [OF assms(1) x])
  obtain binary vm0 saved cl' where v:
      "new_machine (hypervisor w) (ld_linux_x86_64_so (kvm s2)) binary config False = Inr vm0"
      "initialize (hypervisor w) (path_access w) (variables w) (main_snapshot w) (main_program w)
         (Some (warmup (path_access w) (warmup_peers w) (warmup_script (main_program w)))) (just_one_vm config)
         (client s2, link_storage config storage_vm vm0) = Some (Inr saved, cl', vm1)"
      "begin_serving config storage_vm vm1 = Inr x"
    by (rule load_program_serves [OF m(2) x])
  note vm1 = new_machine_keeps [OF v(1) warmed_initialize_same_program [OF v(2)]]
  have "m_config v = config \<and> guarded v" if forks: "x = ServeForks vm1 (Some v)" for v
  proof -
    obtain v0 where "storage_vm = Some v0" "m_config v = m_config v0" "guards v = guards v0"
      using v(3) forks by (auto simp: begin_serving_def serve_single_def then_do_Inr_iff guards_def split: if_splits option.splits)
    then show ?thesis using load_storage_machine m(1) by (auto simp: guarded_def)
  qed
  then show ?thesis using x assms(2) vm1 by (auto split: option.splits)
qed

text \<open>
  C13: What the server serves requests with.  The program it serves waits for requests, is the file the
  configuration names, and stays mapped while it is served; it is served alone exactly when the
  configuration asks for one machine that is not ephemeral, and with one storage machine per fork only when
  there is a storage program.  When it was not started from a snapshot, its polling method is known and it
  waits on a socket that passed the listener check; a listener from a snapshot is not checked again.
\<close>

theorem server_serves_only_a_waiting_program:
  assumes "server_main w config s = Some (x, s')" "x = ServeAlone vm \<or> x = ServeForks vm sv"
    and "guest_ok sock_names (main_program w)"
    and "mmap_fresh (file_os (system w))" "sizes_agree (file_os (system w))"
  shows "m_waiting_for_requests vm \<and>
    m_original_binary vm = file_bytes (file_os (system w)) (main_filename config) \<and>
    (\<exists>v. read_view (process s') v = Inr (m_original_binary vm)) \<and>
    (x = ServeAlone vm \<longleftrightarrow> just_one_vm config) \<and>
    (x \<noteq> ServeAlone vm \<and> storage_1_to_1 config \<longrightarrow> storage config \<and> sv \<noteq> None) \<and>
    (\<not> has_snapshot_state (main_snapshot w) \<longrightarrow> m_poll_method vm \<noteq> Undefined \<and>
       validate_listener (path_access w) vm (sock_names (m_tracked_client_fd vm)) = Inr True)"
proof -
  obtain f p s1 storage_vm s2 where
    m: "new_MmapFile (file_os (system w)) (main_filename config) (process s) = (Inr f, p)"
      "process s1 = p" "load_storage w config s1 = Some (Inr (Inr storage_vm), s2)"
      "load_program w config f storage_vm s2 = Some (Inr x, s')"
    by (rule server_main_serves [OF assms(1,2)])
  obtain binary vm0 saved cl' where v: "load_view (process s2) f = Inr binary"
      "new_machine (hypervisor w) (ld_linux_x86_64_so (kvm s2)) binary config False = Inr vm0"
      "initialize (hypervisor w) (path_access w) (variables w) (main_snapshot w) (main_program w)
         (Some (warmup (path_access w) (warmup_peers w) (warmup_script (main_program w)))) (just_one_vm config)
         (client s2, link_storage config storage_vm vm0) = Some (Inr saved, cl', vm)"
      "m_waiting_for_requests vm" "process s' = process s2" "begin_serving config storage_vm vm = Inr x"
    by (rule load_program_serves [OF m(4) assms(2)])
  note started = initialize_listener [OF linked_boot_inv [OF v(2)] v(3) _ disjI1 [OF v(4)] assms(3)]
  have serve: "x = ServeAlone vm \<longleftrightarrow> just_one_vm config"
      "x \<noteq> ServeAlone vm \<and> storage_1_to_1 config \<longrightarrow> storage_vm \<noteq> None \<and> sv \<noteq> None"
    using v(6) assms(2) by (auto simp: begin_serving_def serve_single_def then_do_Inr_iff split: if_splits option.splits)
  have storage: "storage_vm \<noteq> None \<longrightarrow> storage config" using m(3) by (cases rule: load_storage_returns) auto
  note whole = read_whole_file [OF m(1) assms(4,5)]
  let ?v = "(m_mmap f, m_size f)"
  obtain y where y: "mappings (process s1) (m_mmap f) = Some y"
    using whole(2) m(2) by (auto simp: read_view_def split: option.splits)
  have read: "read_view (process s') ?v = Inr (file_bytes (file_os (system w)) (main_filename config))"
    using whole(2) y m(2) v(5) load_storage_keeps_mappings [OF assms(4) y m(3)] by (simp add: read_view_def)
  then have "binary = file_bytes (file_os (system w)) (main_filename config)"
    using v(1,5) whole(1) by (simp add: load_view_def)
  moreover have "m_original_binary vm = binary"
    by (rule new_machine_keeps(2) [OF v(2) warmed_initialize_same_program [OF v(3)]])
  ultimately have "m_original_binary vm = file_bytes (file_os (system w)) (main_filename config)"
      "\<exists>v. read_view (process s') v = Inr (m_original_binary vm)"
    using read by auto
  with started v(4) serve storage show ?thesis by blast
qed

section \<open>A single machine\<close>

text \<open>
  The endless loop of a single machine, over the runs given: each goes on until the machine is stopped or
  something throws, which is only reported, after the debugger when it is asked for; the next run goes on
  from there.  An exception of the debugger itself ends the loop, and \<open>main\<close> with it.
\<close>

fun serve_alone ::
  "path_checks \<Rightarrow> string list \<Rightarrow> ('m boot_event list \<times> 'm boot_event debugger) list \<Rightarrow> 'm VirtualMachine
   \<Rightarrow> (vm_error option \<times> 'm VirtualMachine) option" where
  "serve_alone checks env [] vm = Some (None, vm)"
| "serve_alone checks env ((es, d) # runs) vm =
     (case guest_run checks new_locals es vm of
        (None, vm) \<Rightarrow> serve_alone checks env runs vm
      | (Some _, vm) \<Rightarrow>
          if getenv env ''DEBUG'' \<noteq> None then
            (case open_debugger (guest_run checks new_locals) d vm of
               None \<Rightarrow> None
             | Some (Some err, vm) \<Rightarrow> Some (Some err, vm)
             | Some (None, vm) \<Rightarrow> serve_alone checks env runs vm)
          else serve_alone checks env runs vm)"

lemma serve_alone_same_program: "serve_alone checks env runs vm = Some (r, vm') \<Longrightarrow> same_program vm vm'"
proof (induction runs arbitrary: vm)
  case (Cons run runs)
  obtain es d where run: "run = (es, d)" by (cases run)
  obtain x v where v: "guest_run checks new_locals es vm = (x, v)" by (cases "guest_run checks new_locals es vm")
  have debug: "same_program v v'" if "open_debugger (guest_run checks new_locals) d v = Some (y, v')" for y v'
    using kept_program.open_debugger_keeps [OF _ that] by (simp add: list_all_iff)
  have "same_program vm v" by (rule kept_program.run_keeps [OF _ v]) simp
  moreover have "same_program v vm' \<or> (\<exists>v'. same_program v v' \<and> serve_alone checks env runs v' = Some (r, vm'))"
    using Cons.prems debug run v by (auto simp: same_program_refl split: option.splits if_splits)
  ultimately show ?case using Cons.IH same_program_trans by blast
qed (simp add: same_program_refl)

text \<open>Without the debugger the loop never ends.\<close>

lemma serve_alone_goes_on:
  "getenv env ''DEBUG'' = None \<Longrightarrow> \<exists>vm'. serve_alone checks env runs vm = Some (None, vm')"
  by (induction checks env runs vm rule: serve_alone.induct) (auto split: prod.splits option.splits)

section \<open>Witnesses\<close>

text \<open>An operating system whose files are the example binary.\<close>

definition binary_files :: file_calls where
  "binary_files = example_files\<lparr>file_size := (\<lambda>_. Inr 128), file_bytes := (\<lambda>_. example_binary)\<rparr>"

definition example_stdio :: stdio_calls where
  "example_stdio = \<lparr>stat_file = (\<lambda>_. Some \<lparr>st_size = 2, is_regular = True, is_symlink = False\<rparr>),
     fopen_rb = (\<lambda>_. True), fseek_end = (\<lambda>_. 0), ftell = (\<lambda>_. 2), fseek_start = (\<lambda>_. 0),
     can_allocate = (\<lambda>_. True), fread = (\<lambda>_ n. replicate n 7)\<rparr>"

definition example_os :: server_os where
  "example_os = \<lparr>file_os = binary_files, stdio_os = example_stdio, machine_init = None\<rparr>"

definition no_kvm :: kvm_globals where
  "no_kvm = \<lparr>sigpipe_ignored = False, ld_linux_x86_64_so = [], kvm_initialized = False\<rparr>"

definition example_world :: "(nat, nat) world" where
  "example_world = \<lparr>hypervisor = example_kvm, path_access = no_path_checks, variables = [], system = example_os,
     main_snapshot = no_snapshot, storage_snapshot = no_snapshot, main_program = example_run,
     storage_program = example_run, warmup_peers = answering_env\<rparr>"

definition new_process :: server_state where
  "new_process = \<lparr>streams = [], kvm = no_kvm, process = empty_process, binary_file = None, storage_file = None,
     client = idle_client\<rparr>"

lemma example_os_ok: "mmap_fresh (file_os example_os)" "sizes_agree (file_os example_os)"
  using example_files_ok(1)
  by (simp_all add: example_os_def binary_files_def mmap_fresh_def sizes_agree_def example_binary_def)

theorem server_serves_only_a_waiting_program_witness:
  "\<exists>vm storage_vm s'. server_main example_world listen_config new_process = Some (ServeForks vm storage_vm, s') \<and>
    m_waiting_for_requests vm \<and> m_original_binary vm = example_binary \<and> m_poll_method vm \<noteq> Undefined"
proof -
  let ?s = "server_main example_world listen_config new_process"
  have "case ?s of Some (ServeForks _ _, _) \<Rightarrow> True | _ \<Rightarrow> False" by code_simp
  then obtain vm storage_vm s' where s: "?s = Some (ServeForks vm storage_vm, s')"
    by (auto split: option.splits startup.splits)
  have world: "\<not> has_snapshot_state (main_snapshot example_world)"
      "guest_ok example_sock_names (main_program example_world)"
      "mmap_fresh (file_os (system example_world))" "sizes_agree (file_os (system example_world))"
    using no_snapshot_state example_run_ok example_os_ok by (simp_all add: example_world_def)
  from server_serves_only_a_waiting_program [OF s disjI2 world(2-4)] world(1) s
  show ?thesis by (simp add: example_world_def example_os_def binary_files_def)
qed

end
