(* ===== verification/Forks.thy ===== *)
theory Forks
  imports VirtualMachine
begin

text \<open>
  The life of a forked machine (vm.cpp): the callbacks an ephemeral fork installs to serve one
  connection at a time, \<open>reset_to\<close>, \<open>restart_poll_syscall\<close> and the loop of \<open>resume_fork\<close>.  What the guest
  does between two resumes is a list of events, one for each callback the hypervisor invokes; the list
  is arbitrary, as guests are not trusted.
\<close>

section \<open>The connection callbacks of an ephemeral fork\<close>

text \<open>\<open>accept_callback\<close>: whether to call \<open>accept4\<close>.  The number of \<open>EAGAIN\<close> is 11.\<close>

definition fork_accept :: "'m VirtualMachine \<Rightarrow> bool \<times> 'm VirtualMachine" where
  "fork_accept vm =
     (if m_blocking_connections vm then (False, set_registers (\<lambda>r. r\<lparr>rax := - 11\<rparr>) vm)
      else (True, vm))"

text \<open>
  \<open>accept_socket_callback\<close> for a new descriptor \<open>fd\<close>; \<open>managed\<close> is the virtual descriptor \<open>fds().manage\<close>
  gives it.
\<close>

definition fork_accept_socket :: "'m VirtualMachine \<Rightarrow> int \<Rightarrow> int \<Rightarrow> int \<times> 'm VirtualMachine" where
  "fork_accept_socket vm fd managed =
     (if m_tracked_client_vfd vm \<noteq> - 1 then (- 11, vm)
      else (managed, vm\<lparr>m_tracked_client_fd := fd, m_tracked_client_vfd := managed,
                       m_blocking_connections := True\<rparr>))"

text \<open>\<open>free_fd_callback\<close>: whether the machine will be reset.\<close>

definition fork_free_fd :: "'m VirtualMachine \<Rightarrow> int \<Rightarrow> bool \<times> 'm VirtualMachine" where
  "fork_free_fd vm vfd =
     (if vfd = m_tracked_client_vfd vm then (True, (stop vm)\<lparr>m_reset_needed := True\<rparr>)
      else (False, vm))"

section \<open>Events\<close>

text \<open>
  The callbacks the hypervisor invokes while the guest runs, and the work the guest does in between.  A
  callback slot that is empty lets the call through and changes nothing.
\<close>

datatype 'm guest_event =
    AcceptCall int
  | AcceptedSocket int int
  | FreedFd int
  | GuestWork registers 'm
  | UnknownSyscall nat

datatype answer = Call bool | NewFd int | Freed bool | Effect syscall_effect | Worked

definition fork_event :: "'m guest_event \<Rightarrow> 'm VirtualMachine \<Rightarrow> vm_error + (answer \<times> 'm VirtualMachine)" where
  "fork_event e vm =
     (case e of
        AcceptCall _ \<Rightarrow>
          if accept_hook (m_fds vm) = ForkHook then Inr (apfst Call (fork_accept vm)) else Inr (Call True, vm)
      | AcceptedSocket fd managed \<Rightarrow>
          if accept_socket_hook (m_fds vm) = ForkHook then Inr (apfst NewFd (fork_accept_socket vm fd managed))
          else Inr (NewFd managed, vm)
      | FreedFd vfd \<Rightarrow>
          if free_fd_hook (m_fds vm) = ForkHook then Inr (apfst Freed (fork_free_fd vm vfd))
          else Inr (Freed False, vm)
      | GuestWork r m \<Rightarrow> Inr (Worked, vm\<lparr>m_machine := (m_machine vm)\<lparr>regs := r, memory := m\<rparr>\<rparr>)
      | UnknownSyscall nr \<Rightarrow> then_do (unhandled_syscall vm nr) (\<lambda>(eff, vm). Inr (Effect eff, vm)))"

text \<open>The guest runs until the machine is stopped or a handler throws.\<close>

fun run_guest :: "'m guest_event list \<Rightarrow> 'm VirtualMachine \<Rightarrow> vm_error option \<times> answer list \<times> 'm VirtualMachine" where
  "run_guest [] vm = (None, [], vm)"
| "run_guest (e # es) vm =
     (if stopped (m_machine vm) then (None, [], vm)
      else case fork_event e vm of
             Inl err \<Rightarrow> (Some err, [], vm)
           | Inr (a, vm) \<Rightarrow> (case run_guest es vm of (r, as, vm) \<Rightarrow> (r, a # as, vm)))"

text \<open>
  One run of the machine: the events, and the exception the hypervisor ends the run with, if any (a
  timeout, a fault of the guest); a run that was stopped does not raise it.
\<close>

record 'm session =
  events :: "'m guest_event list"
  ends :: "vm_error option"

definition vmresume :: "'m session \<Rightarrow> 'm VirtualMachine \<Rightarrow> vm_error option \<times> answer list \<times> 'm VirtualMachine" where
  "vmresume s vm =
     (case run_guest (events s) (vm\<lparr>m_machine := (m_machine vm)\<lparr>stopped := False\<rparr>\<rparr>) of
        (Some err, as, vm) \<Rightarrow> (Some err, as, vm)
      | (None, as, vm) \<Rightarrow> (if stopped (m_machine vm) then None else ends s, as, vm))"

section \<open>Resetting and resuming\<close>

text \<open>
  \<open>reset_to\<close>: the callback is a function on the state \<open>c\<close> it shares with the rest of the server; an
  exception of the hypervisor or of the callback leaves the rest of the function undone.
\<close>

definition reset_to ::
  "'m tinykvm \<Rightarrow> ('c \<Rightarrow> vm_error + 'c) option \<Rightarrow> 'm VirtualMachine \<Rightarrow> 'c \<times> 'm VirtualMachine
   \<Rightarrow> vm_error option \<times> 'c \<times> 'm VirtualMachine" where
  "reset_to k on_reset other = (\<lambda>(c, vm).
     case reset_machine k (m_machine vm) (m_machine other)
            (reset_options (default_options k) (max_address k (m_machine other)) (m_config other)) of
       Inl err \<Rightarrow> (Some err, c, vm)
     | Inr machine \<Rightarrow>
         (let vm = vm\<lparr>m_machine := machine\<rparr>
          in case (case on_reset of None \<Rightarrow> Inr c | Some f \<Rightarrow> f c) of
               Inl err \<Rightarrow> (Some err, c, vm)
             | Inr c \<Rightarrow> (None, c, vm\<lparr>m_tracked_client_fd := - 1, m_tracked_client_vfd := - 1,
                                      m_blocking_connections := False\<rparr>)))"

text \<open>
  The loop of an ephemeral fork over the sessions of its guest.  The system call done again runs its
  callbacks as part of the session.  \<open>StillRunning\<close> means that the sessions given do not end the loop.
\<close>

datatype fork_exit = StillRunning | Returned | Threw vm_error

fun resume_loop ::
  "'m tinykvm \<Rightarrow> ('c \<Rightarrow> vm_error + 'c) option \<Rightarrow> 'm VirtualMachine \<Rightarrow> 'm session list \<Rightarrow> 'c \<times> 'm VirtualMachine
   \<Rightarrow> fork_exit \<times> 'm session list \<times> 'c \<times> 'm VirtualMachine" where
  "resume_loop k on_reset master [] (c, vm) =
     (case restart_poll_syscall vm of Inl err \<Rightarrow> (Threw err, [], c, vm) | Inr _ \<Rightarrow> (StillRunning, [], c, vm))"
| "resume_loop k on_reset master (s # rest) (c, vm) =
     (case restart_poll_syscall vm of
        Inl err \<Rightarrow> (Threw err, s # rest, c, vm)
      | Inr _ \<Rightarrow>
          (case vmresume s vm of
             (Some err, as, vm) \<Rightarrow> (Threw err, rest, c, vm)
           | (None, as, vm) \<Rightarrow>
               if m_reset_needed vm then
                 (case reset_to k on_reset master (c, vm) of
                    (Some err, c, vm) \<Rightarrow> (Threw err, rest, c, vm)
                  | (None, c, vm) \<Rightarrow>
                      resume_loop k on_reset master rest (c, vm\<lparr>m_reset_needed := False\<rparr>))
               else (Returned, rest, c, vm)))"

text \<open>\<open>resume_fork\<close>; a fork that is not ephemeral is resumed once.\<close>

definition resume_fork ::
  "'m tinykvm \<Rightarrow> ('c \<Rightarrow> vm_error + 'c) option \<Rightarrow> 'm VirtualMachine \<Rightarrow> 'm session list \<Rightarrow> 'c \<times> 'm VirtualMachine
   \<Rightarrow> fork_exit \<times> 'm session list \<times> 'c \<times> 'm VirtualMachine" where
  "resume_fork k on_reset master sessions = (\<lambda>(c, vm).
     if m_ephemeral vm then resume_loop k on_reset master sessions (c, vm)
     else case sessions of
            [] \<Rightarrow> (StillRunning, [], c, vm)
          | s # rest \<Rightarrow>
              (case vmresume s vm of
                 (Some err, as, vm) \<Rightarrow> (Threw err, rest, c, vm)
               | (None, as, vm) \<Rightarrow> (Returned, rest, c, vm)))"

section \<open>The invariant of an ephemeral fork\<close>

text \<open>Descriptors are not negative.\<close>

fun event_ok :: "'m guest_event \<Rightarrow> bool" where
  "event_ok (AcceptedSocket fd managed) \<longleftrightarrow> 0 \<le> fd \<and> 0 \<le> managed"
| "event_ok (FreedFd vfd) \<longleftrightarrow> 0 \<le> vfd"
| "event_ok _ \<longleftrightarrow> True"

definition fork_hooks :: "'m VirtualMachine \<Rightarrow> bool" where
  "fork_hooks vm \<longleftrightarrow> accept_hook (m_fds vm) = ForkHook \<and> accept_socket_hook (m_fds vm) = ForkHook \<and>
     free_fd_hook (m_fds vm) = ForkHook"

definition fork_inv :: "'m VirtualMachine \<Rightarrow> bool" where
  "fork_inv vm \<longleftrightarrow> m_ephemeral vm \<and> fork_hooks vm \<and>
     (m_blocking_connections vm \<longleftrightarrow> m_tracked_client_vfd vm \<noteq> - 1) \<and>
     (m_tracked_client_fd vm = - 1 \<longleftrightarrow> m_tracked_client_vfd vm = - 1)"

text \<open>No connection is tracked and no reset is pending: the fork is ready for a new client.\<close>

definition ready :: "'m VirtualMachine \<Rightarrow> bool" where
  "ready vm \<longleftrightarrow> m_tracked_client_fd vm = - 1 \<and> m_tracked_client_vfd vm = - 1 \<and>
     \<not> m_blocking_connections vm \<and> \<not> m_reset_needed vm"

text \<open>
  The steps of a fork: its link to a storage machine, an event, the start of a run, the reset of
  \<open>resume_fork\<close>, and a reset of the thread that runs the fork, which leaves \<open>m_reset_needed\<close> as it was, or a
  reset that throws.
\<close>

inductive fork_step ::
  "'m tinykvm \<Rightarrow> ('c \<Rightarrow> vm_error + 'c) option \<Rightarrow> 'm VirtualMachine \<Rightarrow> 'm VirtualMachine \<Rightarrow> 'm VirtualMachine \<Rightarrow> bool"
  for k on_reset master where
  link: "fork_step k on_reset master vm (connect_storage config storage_fork vm)"
| event: "\<not> stopped (m_machine vm) \<Longrightarrow> event_ok e \<Longrightarrow> fork_event e vm = Inr (a, vm') \<Longrightarrow>
    fork_step k on_reset master vm vm'"
| resume: "fork_step k on_reset master vm (vm\<lparr>m_machine := (m_machine vm)\<lparr>stopped := False\<rparr>\<rparr>)"
| reset: "reset_to k on_reset master (c, vm) = (None, c', vm') \<Longrightarrow>
    fork_step k on_reset master vm (vm'\<lparr>m_reset_needed := False\<rparr>)"
| thread_reset: "reset_to k on_reset master (c, vm) = (r, c', vm') \<Longrightarrow> fork_step k on_reset master vm vm'"

inductive_cases fork_stepE: "fork_step k on_reset master vm vm'"

text \<open>What a step can change: the machine and the connection members.\<close>

definition same_vm :: "'m VirtualMachine \<Rightarrow> 'm VirtualMachine \<Rightarrow> bool" where
  "same_vm vm vm' \<longleftrightarrow>
     (\<exists>mach tfd tvfd bl rn wait. vm' = vm\<lparr>m_machine := mach, m_tracked_client_fd := tfd,
        m_tracked_client_vfd := tvfd, m_blocking_connections := bl, m_reset_needed := rn,
        m_waiting_for_requests := wait\<rparr>)"

lemma same_vm_iff:
  "same_vm vm vm' \<longleftrightarrow> m_fds vm' = m_fds vm \<and> m_config vm' = m_config vm \<and>
     m_original_binary vm' = m_original_binary vm \<and> m_binary_type vm' = m_binary_type vm \<and>
     m_reqid vm' = m_reqid vm \<and> m_ephemeral vm' = m_ephemeral vm \<and> m_is_storage vm' = m_is_storage vm \<and>
     m_poll_method vm' = m_poll_method vm"
  by (cases vm; cases vm') (auto simp: same_vm_def)

lemma same_vm_refl [simp]: "same_vm vm vm"
  by (simp add: same_vm_iff)

lemma same_vm_trans [trans]: "same_vm a b \<Longrightarrow> same_vm b c \<Longrightarrow> same_vm a c"
  by (simp add: same_vm_iff)

lemmas callback_defs = fork_accept_def fork_accept_socket_def fork_free_fd_def stop_def set_registers_def

lemma unhandled_syscall_frame:
  assumes "unhandled_syscall vm nr = Inr (eff, vm')"
  shows "same_vm vm vm'" "m_tracked_client_fd vm' = m_tracked_client_fd vm"
    "m_tracked_client_vfd vm' = m_tracked_client_vfd vm"
    "m_blocking_connections vm' = m_blocking_connections vm" "m_reset_needed vm' = m_reset_needed vm"
  using assms by (auto simp: unhandled_syscall_def stop_def same_vm_iff split: if_splits)

lemma fork_event_same:
  assumes "fork_event e vm = Inr (a, vm')"
  shows "same_vm vm vm'"
  using assms unhandled_syscall_frame(1) [of vm _ _ vm']
  by (cases e) (auto simp: fork_event_def callback_defs then_do_Inr_iff same_vm_iff split: if_splits)

lemma fork_event_inv:
  assumes "fork_inv vm" "event_ok e" "fork_event e vm = Inr (a, vm')"
  shows "fork_inv vm'"
proof (cases e)
  case (UnknownSyscall nr)
  then obtain eff where "unhandled_syscall vm nr = Inr (eff, vm')"
    using assms(3) by (auto simp: fork_event_def then_do_Inr_iff)
  note frame = unhandled_syscall_frame [OF this]
  then show ?thesis using assms(1) by (simp add: fork_inv_def fork_hooks_def same_vm_iff)
qed (use assms in \<open>auto simp: fork_event_def fork_inv_def fork_hooks_def callback_defs split: if_splits\<close>)

lemma reset_to_same:
  assumes "reset_to k on_reset master (c, vm) = (r, c', vm')"
  shows "same_vm vm vm'" "m_reset_needed vm' = m_reset_needed vm"
  using assms by (auto simp: reset_to_def Let_def same_vm_iff split: sum.splits)

lemma reset_to_fails:
  assumes "reset_to k on_reset master (c, vm) = (Some err, c', vm')"
  shows "c' = c" "m_tracked_client_fd vm' = m_tracked_client_fd vm"
    "m_tracked_client_vfd vm' = m_tracked_client_vfd vm"
    "m_blocking_connections vm' = m_blocking_connections vm"
  using assms by (auto simp: reset_to_def Let_def split: sum.splits)

lemma reset_to_ready:
  assumes "reset_to k on_reset master (c, vm) = (None, c', vm')"
  shows "ready (vm'\<lparr>m_reset_needed := False\<rparr>)"
  using assms by (auto simp: reset_to_def Let_def ready_def split: sum.splits)

lemma fork_step_inv:
  assumes "fork_inv vm" "fork_step k on_reset master vm vm'"
  shows "fork_inv vm'"
  using assms(2)
proof cases
  case (link config storage_fork)
  then show ?thesis using assms(1) by (simp add: fork_inv_def fork_hooks_def connect_storage_def)
next
  case (event e a)
  then show ?thesis using fork_event_inv [OF assms(1)] by blast
next
  case resume
  then show ?thesis using assms(1) by (simp add: fork_inv_def fork_hooks_def)
next
  case (reset c c' v)
  then show ?thesis
    using assms(1) reset_to_ready [OF reset(2)] reset_to_same [OF reset(2)]
    by (simp add: fork_inv_def fork_hooks_def ready_def same_vm_iff)
next
  case (thread_reset c r c')
  then show ?thesis
    using assms(1) reset_to_fails [of k on_reset master c vm _ c' vm'] reset_to_ready [of k on_reset master c vm c' vm']
      reset_to_same [OF thread_reset]
    by (cases r) (auto simp: fork_inv_def fork_hooks_def ready_def same_vm_iff)
qed

lemma new_fork_ready:
  assumes "new_fork k master reqid is_storage = Inr vm"
  shows "ready vm" "m_ephemeral vm = m_ephemeral master" "m_ephemeral master \<Longrightarrow> fork_inv vm"
    "m_poll_method vm = m_poll_method master" "m_config vm = m_config master" "m_is_storage vm = is_storage"
    "m_reqid vm = reqid"
  using assms
  by (auto simp: new_fork_def then_do_Inr_iff ready_def fork_inv_def fork_hooks_def fork_fds_def)

interpretation fork_system: step_system
  "\<lambda>vm. m_ephemeral master \<and> (\<exists>reqid is_storage. new_fork k master reqid is_storage = Inr vm)"
  "fork_step k on_reset master" fork_inv
  for k and on_reset :: "('c \<Rightarrow> vm_error + 'c) option" and master :: "'m VirtualMachine"
proof unfold_locales
  show "fork_inv vm" if "m_ephemeral master \<and> (\<exists>reqid is_storage. new_fork k master reqid is_storage = Inr vm)"
    for vm using that new_fork_ready(3) by blast
  show "fork_inv vm'" if "fork_inv vm" "fork_step k on_reset master vm vm'" for vm vm'
    using that by (rule fork_step_inv)
qed

lemma fork_steps_same: "(fork_step k on_reset master)\<^sup>*\<^sup>* vm vm' \<Longrightarrow> same_vm vm vm'"
proof (induction rule: rtranclp_induct)
  case (step v w)
  from step(2) have "same_vm v w"
  proof cases
    case (link config storage_fork)
    then show ?thesis by (simp add: same_vm_iff connect_storage_def)
  next
    case (event e a)
    then show ?thesis using fork_event_same by blast
  next
    case (reset c c' u)
    then show ?thesis using reset_to_same(1) [OF reset(2)] by (simp add: same_vm_iff)
  next
    case resume
    then show ?thesis by (simp add: same_vm_iff)
  next
    case (thread_reset c r c')
    then show ?thesis by (rule reset_to_same(1))
  qed
  then show ?case using step(3) same_vm_trans by blast
qed simp

section \<open>The loop follows the step relation\<close>

definition session_ok :: "'m session \<Rightarrow> bool" where
  "session_ok s = list_all event_ok (events s)"

lemma run_guest_steps:
  assumes "run_guest es vm = (r, as, vm')" "list_all event_ok es"
  shows "(fork_step k on_reset master)\<^sup>*\<^sup>* vm vm'"
  using assms
proof (induction es arbitrary: vm as)
  case (Cons e es)
  show ?case
  proof (cases "stopped (m_machine vm) \<or> isl (fork_event e vm)")
    case True
    then show ?thesis using Cons.prems(1) by (auto split: sum.splits if_splits)
  next
    case False
    then obtain a v as' where v: "fork_event e vm = Inr (a, v)" "run_guest es v = (r, as', vm')"
      using Cons.prems(1) by (auto split: sum.splits prod.splits)
    have "fork_step k on_reset master vm v"
      using False Cons.prems(2) v(1) by (intro fork_step.event) auto
    also have "(fork_step k on_reset master)\<^sup>*\<^sup>* v vm'" using Cons.IH [OF v(2)] Cons.prems(2) by simp
    finally show ?thesis .
  qed
qed simp

lemma vmresume_steps:
  assumes "vmresume s vm = (r, as, vm')" "session_ok s"
  shows "(fork_step k on_reset master)\<^sup>*\<^sup>* vm vm'"
proof -
  have "fork_step k on_reset master vm (vm\<lparr>m_machine := (m_machine vm)\<lparr>stopped := False\<rparr>\<rparr>)"
    by (rule fork_step.resume)
  moreover obtain r' where "run_guest (events s) (vm\<lparr>m_machine := (m_machine vm)\<lparr>stopped := False\<rparr>\<rparr>) = (r', as, vm')"
    using assms(1) by (auto simp: vmresume_def split: prod.splits option.splits)
  then have "(fork_step k on_reset master)\<^sup>*\<^sup>* (vm\<lparr>m_machine := (m_machine vm)\<lparr>stopped := False\<rparr>\<rparr>) vm'"
    by (rule run_guest_steps) (use assms(2) in \<open>simp add: session_ok_def\<close>)
  ultimately show ?thesis by (rule converse_rtranclp_into_rtranclp)
qed

lemma resume_loop_steps:
  assumes "resume_loop k on_reset master ss (c, vm) = (x, rest, c', vm')" "list_all session_ok ss"
  shows "(fork_step k on_reset master)\<^sup>*\<^sup>* vm vm'"
  using assms
proof (induction ss arbitrary: c vm)
  case Nil
  then show ?case by (auto split: sum.splits)
next
  case (Cons s ss)
  show ?case
  proof (cases "restart_poll_syscall vm")
    case (Inl err)
    then show ?thesis using Cons.prems(1) by simp
  next
    case (Inr nr)
    obtain r as v where v: "vmresume s vm = (r, as, v)" by (cases "vmresume s vm") auto
    have vs: "(fork_step k on_reset master)\<^sup>*\<^sup>* vm v"
      using vmresume_steps [OF v] Cons.prems(2) by simp
    show ?thesis
    proof (cases "r = None \<and> m_reset_needed v")
      case False
      then have "vm' = v" using Cons.prems(1) Inr v by (auto split: option.splits if_splits)
      with vs show ?thesis by simp
    next
      case True
      obtain re c1 w where w: "reset_to k on_reset master (c, v) = (re, c1, w)"
        by (cases "reset_to k on_reset master (c, v)") auto
      show ?thesis
      proof (cases re)
        case (Some err)
        then have "vm' = w" using Cons.prems(1) Inr v True w by simp
        moreover have "fork_step k on_reset master v w" using w Some by (auto intro: fork_step.thread_reset)
        ultimately show ?thesis using vs by (auto intro: rtranclp.rtrancl_into_rtrancl)
      next
        case None
        have "fork_step k on_reset master v (w\<lparr>m_reset_needed := False\<rparr>)"
          using w None by (auto intro: fork_step.reset)
        moreover have "(fork_step k on_reset master)\<^sup>*\<^sup>* (w\<lparr>m_reset_needed := False\<rparr>) vm'"
          using Cons.prems Inr v True w None by (intro Cons.IH [of c1]) auto
        ultimately show ?thesis using vs by (meson converse_rtranclp_into_rtranclp rtranclp_trans)
      qed
    qed
  qed
qed

lemma reset_asked_by_close:
  assumes "fork_event e vm = Inr (a, vm')" "m_reset_needed vm'" "\<not> m_reset_needed vm" "event_ok e"
  shows "m_tracked_client_vfd vm \<noteq> - 1 \<and> e = FreedFd (m_tracked_client_vfd vm)"
proof (cases e)
  case (UnknownSyscall nr)
  then show ?thesis
    using assms(1-3) unhandled_syscall_frame(5) [of vm nr _ vm'] by (auto simp: fork_event_def then_do_Inr_iff)
qed (use assms in \<open>auto simp: fork_event_def callback_defs split: if_splits\<close>)

text \<open>
  C9: Whatever its guest does, a reachable state of an ephemeral fork blocks new connections exactly
  while it tracks one, and the only event that makes it ask for a reset is the close of that connection.
\<close>

theorem fork_blocks_iff_it_tracks_a_connection:
  assumes "new_fork k master reqid is_storage = Inr vm" "m_ephemeral master"
    and "(fork_step k on_reset master)\<^sup>*\<^sup>* vm vm'"
  shows "(m_blocking_connections vm' \<longleftrightarrow> m_tracked_client_vfd vm' \<noteq> - 1) \<and>
    (m_tracked_client_fd vm' = - 1 \<longleftrightarrow> m_tracked_client_vfd vm' = - 1) \<and>
    (fork_event e vm' = Inr (a, vm'') \<and> m_reset_needed vm'' \<and> \<not> m_reset_needed vm' \<and> event_ok e \<longrightarrow>
      m_tracked_client_vfd vm' \<noteq> - 1 \<and> e = FreedFd (m_tracked_client_vfd vm'))"
proof -
  have "fork_inv vm'" using fork_system.reachable_inv assms by blast
  moreover have "m_tracked_client_vfd vm' \<noteq> - 1 \<and> e = FreedFd (m_tracked_client_vfd vm')"
    if "fork_event e vm' = Inr (a, vm'')" "m_reset_needed vm''" "\<not> m_reset_needed vm'" "event_ok e"
    using reset_asked_by_close [OF that] .
  ultimately show ?thesis by (simp add: fork_inv_def)
qed

section \<open>One connection per session\<close>

text \<open>The answers that give the guest a new connection.\<close>

definition accepted :: "answer \<Rightarrow> bool" where
  "accepted a = (case a of NewFd n \<Rightarrow> 0 \<le> n | _ \<Rightarrow> False)"

lemma event_while_tracking:
  assumes "fork_event e vm = Inr (a, vm')" "fork_hooks vm" "m_tracked_client_vfd vm \<noteq> - 1"
  shows "\<not> accepted a" "m_tracked_client_vfd vm' = m_tracked_client_vfd vm" "fork_hooks vm'"
proof -
  have "\<not> accepted a \<and> m_tracked_client_vfd vm' = m_tracked_client_vfd vm \<and> fork_hooks vm'"
    using assms unhandled_syscall_frame [of vm _ _ vm']
    by (cases e) (auto simp: fork_event_def fork_hooks_def callback_defs accepted_def then_do_Inr_iff
        same_vm_iff split: if_splits)
  then show "\<not> accepted a" "m_tracked_client_vfd vm' = m_tracked_client_vfd vm" "fork_hooks vm'" by simp_all
qed

lemma run_while_tracking:
  assumes "run_guest es vm = (r, as, vm')" "fork_hooks vm" "m_tracked_client_vfd vm \<noteq> - 1"
  shows "filter accepted as = [] \<and> m_tracked_client_vfd vm' = m_tracked_client_vfd vm"
  using assms
proof (induction es arbitrary: vm as)
  case (Cons e es)
  then show ?case
    using event_while_tracking [of e vm]
    by (fastforce split: if_splits sum.splits prod.splits)
qed simp

lemma event_without_tracking:
  assumes "fork_event e vm = Inr (a, vm')" "fork_hooks vm" "m_tracked_client_vfd vm = - 1" "event_ok e"
  shows "fork_hooks vm'" "accepted a \<longleftrightarrow> m_tracked_client_vfd vm' \<noteq> - 1"
proof -
  have "fork_hooks vm' \<and> (accepted a \<longleftrightarrow> m_tracked_client_vfd vm' \<noteq> - 1)"
    using assms unhandled_syscall_frame [of vm _ _ vm']
    by (cases e) (auto simp: fork_event_def fork_hooks_def callback_defs accepted_def then_do_Inr_iff
        same_vm_iff split: if_splits)
  then show "fork_hooks vm'" "accepted a \<longleftrightarrow> m_tracked_client_vfd vm' \<noteq> - 1" by simp_all
qed

lemma run_accepts_once:
  assumes "run_guest es vm = (r, as, vm')" "fork_hooks vm" "list_all event_ok es"
  shows "length (filter accepted as) \<le> 1"
  using assms
proof (induction es arbitrary: vm as)
  case (Cons e es)
  show ?case
  proof (cases "stopped (m_machine vm) \<or> isl (fork_event e vm)")
    case True
    then show ?thesis using Cons.prems(1) by (auto split: sum.splits if_splits)
  next
    case False
    then obtain a v as' where v: "fork_event e vm = Inr (a, v)" "run_guest es v = (r, as', vm')" "as = a # as'"
      using Cons.prems(1) by (auto split: sum.splits prod.splits)
    show ?thesis
    proof (cases "m_tracked_client_vfd vm = - 1")
      case True
      note e = event_without_tracking [OF v(1) Cons.prems(2) True] 
      show ?thesis
      proof (cases "accepted a")
        case True
        then have "filter accepted as' = []"
          using e Cons.prems(3) run_while_tracking [OF v(2)] by simp
        then show ?thesis by (simp add: v(3))
      next
        case False
        then show ?thesis using Cons.IH [OF v(2)] e Cons.prems(3) by (simp add: v(3))
      qed
    next
      case False
      note e = event_while_tracking [OF v(1) Cons.prems(2) False]
      then have "filter accepted as' = []" using run_while_tracking [OF v(2)] False by simp
      then show ?thesis using e(1) by (simp add: v(3))
    qed
  qed
qed simp

text \<open>
  C6: Between two resets an ephemeral fork gives its guest at most one connection, whatever sequence of
  calls the guest makes.
\<close>

theorem one_connection_per_session:
  assumes "new_fork k master reqid is_storage = Inr vm0" "m_ephemeral master"
    and "(fork_step k on_reset master)\<^sup>*\<^sup>* vm0 vm"
    and "vmresume s vm = (r, as, vm')" "session_ok s"
  shows "length (filter accepted as) \<le> 1"
proof -
  have "fork_inv vm" using fork_system.reachable_inv assms(1-3) by blast
  then have "fork_hooks (vm\<lparr>m_machine := (m_machine vm)\<lparr>stopped := False\<rparr>\<rparr>)"
    by (simp add: fork_inv_def fork_hooks_def)
  moreover obtain r' where "run_guest (events s) (vm\<lparr>m_machine := (m_machine vm)\<lparr>stopped := False\<rparr>\<rparr>) = (r', as, vm')"
    using assms(4) by (auto simp: vmresume_def split: prod.splits option.splits)
  ultimately show ?thesis using run_accepts_once assms(5) by (auto simp: session_ok_def)
qed

text \<open>
  Only the close of the tracked connection makes the fork ask for a reset, and it stops the machine
  at once, so that the guest does nothing more before it; closing any other descriptor changes nothing.
\<close>

lemma close_of_connection_requests_reset:
  assumes "fork_inv vm" "0 \<le> vfd"
  shows "fork_event (FreedFd vfd) vm =
    (if vfd = m_tracked_client_vfd vm
     then Inr (Freed True, (stop vm)\<lparr>m_reset_needed := True\<rparr>) else Inr (Freed False, vm)) \<and>
    (vfd = m_tracked_client_vfd vm \<longrightarrow>
       run_guest (FreedFd vfd # es) (vm\<lparr>m_machine := (m_machine vm)\<lparr>stopped := False\<rparr>\<rparr>) =
         (None, [Freed True], (stop vm)\<lparr>m_reset_needed := True\<rparr>))"
proof -
  have hooks: "free_fd_hook (m_fds vm) = ForkHook" using assms by (simp add: fork_inv_def fork_hooks_def)
  have "run_guest es ((stop vm)\<lparr>m_reset_needed := True\<rparr>) = (None, [], (stop vm)\<lparr>m_reset_needed := True\<rparr>)"
    by (cases es) (simp_all add: stop_def)
  then show ?thesis
    using hooks by (simp add: fork_event_def fork_free_fd_def stop_def)
qed

section \<open>A fork refines a server of one connection\<close>

text \<open>
  What a fork is meant to be: a server with at most one connection, known by its descriptor.  It answers
  each event a client can see, and nothing is said of the others: a new connection is taken when there
  is none and refused otherwise, and a close ends the session when it is the close of the connection.
\<close>

fun one_connection :: "'m guest_event \<Rightarrow> int option \<Rightarrow> answer option \<times> int option" where
  "one_connection (AcceptCall _) conn = (Some (Call (conn = None)), conn)"
| "one_connection (AcceptedSocket fd managed) conn =
     (if conn = None then (Some (NewFd managed), Some managed) else (Some (NewFd (- 11)), conn))"
| "one_connection (FreedFd vfd) conn = (Some (Freed (conn = Some vfd)), conn)"
| "one_connection _ conn = (None, conn)"

fun one_connection_trace :: "'m guest_event list \<Rightarrow> int option \<Rightarrow> answer option list \<times> int option" where
  "one_connection_trace [] conn = ([], conn)"
| "one_connection_trace (e # es) conn =
     (case one_connection e conn of
        (a, conn) \<Rightarrow> (case one_connection_trace es conn of (as, conn) \<Rightarrow> (a # as, conn)))"

definition connection :: "'m VirtualMachine \<Rightarrow> int option" where
  "connection vm = (if m_tracked_client_vfd vm = - 1 then None else Some (m_tracked_client_vfd vm))"

definition answers_as :: "answer option \<Rightarrow> answer \<Rightarrow> bool" where
  "answers_as spec a \<longleftrightarrow> spec = None \<or> spec = Some a"

lemma event_refines:
  assumes "fork_inv vm" "event_ok e" "fork_event e vm = Inr (a, vm')"
  shows "answers_as (fst (one_connection e (connection vm))) a \<and> connection vm' = snd (one_connection e (connection vm))"
proof (cases e)
  case (UnknownSyscall nr)
  then show ?thesis
    using assms(3) unhandled_syscall_frame(3) [of vm nr _ vm']
    by (auto simp: fork_event_def then_do_Inr_iff answers_as_def connection_def)
qed (use assms in \<open>auto simp: fork_event_def fork_inv_def fork_hooks_def callback_defs answers_as_def connection_def
       split: if_splits\<close>)

lemma run_refines:
  assumes "fork_inv vm" "list_all event_ok es" "run_guest es vm = (r, as, vm')"
  shows "list_all2 answers_as (fst (one_connection_trace (take (length as) es) (connection vm))) as \<and>
    connection vm' = snd (one_connection_trace (take (length as) es) (connection vm))"
  using assms
proof (induction es arbitrary: vm as)
  case (Cons e es)
  show ?case
  proof (cases "stopped (m_machine vm) \<or> isl (fork_event e vm)")
    case True
    then show ?thesis using Cons.prems(3) by (auto split: sum.splits if_splits)
  next
    case False
    then obtain a v as' where v: "fork_event e vm = Inr (a, v)" "run_guest es v = (r, as', vm')" "as = a # as'"
      using Cons.prems(3) by (auto split: sum.splits prod.splits)
    have ok: "event_ok e" "list_all event_ok es" using Cons.prems(2) by simp_all
    show ?thesis
      using event_refines [OF Cons.prems(1) ok(1) v(1)] Cons.IH [OF fork_event_inv [OF Cons.prems(1) ok(1) v(1)] ok(2) v(2)]
      by (auto simp: v(3) split: prod.splits)
  qed
qed simp

text \<open>
  C5: An ephemeral fork refines the server of one connection: in every reachable state the answers its
  guest gets in a session are those of the specification, the connection it has afterwards is the one the
  specification says, and a reset that succeeds ends it.
\<close>

theorem fork_refines_one_connection_server:
  assumes "new_fork k master reqid is_storage = Inr vm0" "m_ephemeral master"
    and "(fork_step k on_reset master)\<^sup>*\<^sup>* vm0 vm" "vmresume s vm = (r, as, vm')" "session_ok s"
  shows "list_all2 answers_as (fst (one_connection_trace (take (length as) (events s)) (connection vm))) as \<and>
    connection vm' = snd (one_connection_trace (take (length as) (events s)) (connection vm)) \<and>
    (reset_to k on_reset master (c, vm') = (None, c', vm'') \<longrightarrow> connection vm'' = None)"
proof -
  let ?vm = "vm\<lparr>m_machine := (m_machine vm)\<lparr>stopped := False\<rparr>\<rparr>"
  have "fork_inv vm" using fork_system.reachable_inv assms(1-3) by blast
  then have inv: "fork_inv ?vm" "connection ?vm = connection vm"
    by (simp_all add: fork_inv_def fork_hooks_def connection_def)
  obtain r' where run: "run_guest (events s) ?vm = (r', as, vm')"
    using assms(4) by (auto simp: vmresume_def split: prod.splits option.splits)
  have "connection vm'' = None" if "reset_to k on_reset master (c, vm') = (None, c', vm'')"
    using reset_to_ready [OF that] by (simp add: ready_def connection_def)
  then show ?thesis using run_refines [OF inv(1) _ run] assms(5) inv(2) by (simp add: session_ok_def)
qed

section \<open>Isolation and liveness\<close>

lemma run_guest_same: "run_guest es vm = (r, as, vm') \<Longrightarrow> same_vm vm vm'"
proof (induction es arbitrary: vm as)
  case (Cons e es)
  then show ?case
    using fork_event_same [of e vm]
    by (auto split: if_splits sum.splits prod.splits intro: same_vm_trans)
qed simp

lemma vmresume_same: "vmresume s vm = (r, as, vm') \<Longrightarrow> same_vm vm vm'"
  using run_guest_same [of "events s" "vm\<lparr>m_machine := (m_machine vm)\<lparr>stopped := False\<rparr>\<rparr>"]
  by (auto simp: vmresume_def same_vm_iff split: prod.splits option.splits)

lemma reset_to_registers:
  assumes "\<forall>m options m'. reset_machine k m (m_machine master) options = Inr m' \<longrightarrow>
      max_mem options = max_address k (m_machine master) \<longrightarrow>
      memory m' = memory (m_machine master) \<and>
      (reset_copy_all_registers options \<longrightarrow> regs m' = regs (m_machine master))"
    and "reset_to k on_reset master (c, vm) = (None, c', vm')"
  shows "regs (m_machine vm') = regs (m_machine master) \<and> memory (m_machine vm') = memory (m_machine master)"
proof -
  let ?options = "reset_options (default_options k) (max_address k (m_machine master)) (m_config master)"
  obtain m' where m': "reset_machine k (m_machine vm) (m_machine master) ?options = Inr m'"
    using assms(2) by (auto simp: reset_to_def split: sum.splits)
  moreover have "max_mem ?options = max_address k (m_machine master)" "reset_copy_all_registers ?options"
    by (simp_all add: reset_options_def)
  ultimately have "regs m' = regs (m_machine master)" "memory m' = memory (m_machine master)"
    using assms(1) by blast+
  moreover have "m_machine vm' = m'"
    using assms(2) m' by (auto simp: reset_to_def Let_def split: sum.splits)
  ultimately show ?thesis by simp
qed

text \<open>
  C8: Every session of an ephemeral fork starts from the state of the master: after any number of
  sessions, whatever their guests did, the registers and the memory are the master's, no connection is
  tracked and no reset is pending.  The hypothesis is what the hypervisor promises of a successful reset
  to the master: with options of the master's size the memory is the master's, and with
  \<open>reset_copy_all_registers\<close> set so are the registers.  That \<open>reset_to\<close> asks for both is part of what is
  proved.
\<close>

theorem sessions_start_from_the_master_state:
  assumes "\<forall>m options m'. reset_machine k m (m_machine master) options = Inr m' \<longrightarrow>
      max_mem options = max_address k (m_machine master) \<longrightarrow>
      memory m' = memory (m_machine master) \<and>
      (reset_copy_all_registers options \<longrightarrow> regs m' = regs (m_machine master))"
    and "resume_loop k on_reset master ss (c, vm) = (StillRunning, [], c', vm')" "ss \<noteq> []"
  shows "regs (m_machine vm') = regs (m_machine master) \<and> memory (m_machine vm') = memory (m_machine master) \<and>
    ready vm' \<and> same_vm vm vm'"
  using assms(2,3)
proof (induction ss arbitrary: c vm)
  case (Cons s ss)
  obtain nr where nr: "restart_poll_syscall vm = Inr nr"
    using Cons.prems(1) by (auto split: sum.splits)
  obtain as v where v: "vmresume s vm = (None, as, v)" "m_reset_needed v"
    using Cons.prems(1) nr by (auto split: prod.splits option.splits if_splits)
  obtain c1 w where w: "reset_to k on_reset master (c, v) = (None, c1, w)"
    using Cons.prems(1) nr v by (auto split: prod.splits option.splits)
  let ?w = "w\<lparr>m_reset_needed := False\<rparr>"
  have loop: "resume_loop k on_reset master ss (c1, ?w) = (StillRunning, [], c', vm')"
    using Cons.prems(1) nr v w by simp
  have same: "same_vm vm ?w"
    using vmresume_same [OF v(1)] reset_to_same(1) [OF w] by (simp add: same_vm_iff)
  have "regs (m_machine ?w) = regs (m_machine master) \<and> memory (m_machine ?w) = memory (m_machine master)"
    using reset_to_registers [OF assms(1) w] by simp
  moreover have "ready ?w" by (rule reset_to_ready [OF w])
  ultimately show ?case
    using Cons.IH [OF loop] same_vm_trans [OF same] same loop
    by (cases ss) (auto split: sum.splits)
qed simp

lemma run_guest_append:
  "run_guest (es @ fs) vm =
     (case run_guest es vm of
        (Some err, as, v) \<Rightarrow> (Some err, as, v)
      | (None, as, v) \<Rightarrow> (case run_guest fs v of (r, bs, w) \<Rightarrow> (r, as @ bs, w)))"
proof (induction es arbitrary: vm)
  case Nil
  then show ?case by (simp split: prod.splits)
next
  case (Cons e es)
  show ?case
  proof (cases "stopped (m_machine vm)")
    case True
    then show ?thesis by (cases fs) simp_all
  next
    case False
    then show ?thesis
      by (auto simp: Cons.IH split: sum.splits prod.splits option.splits)
  qed
qed

text \<open>A guest that serves one client: it takes a connection and closes it; nothing else it does touches it.\<close>

definition harmless :: "int \<Rightarrow> 'm guest_event \<Rightarrow> bool" where
  "harmless vfd e = (case e of AcceptCall _ \<Rightarrow> True | GuestWork _ _ \<Rightarrow> True
     | FreedFd w \<Rightarrow> 0 \<le> w \<and> w \<noteq> vfd | _ \<Rightarrow> False)"

definition serves_client :: "'m session \<Rightarrow> bool" where
  "serves_client s \<longleftrightarrow> (\<exists>pre fd vfd mid post. events s = pre @ AcceptedSocket fd vfd # mid @ FreedFd vfd # post \<and>
     0 \<le> fd \<and> 0 \<le> vfd \<and> list_all (harmless vfd) (pre @ mid))"

lemma harmless_event:
  assumes "harmless vfd e" "m_tracked_client_vfd vm = - 1 \<or> m_tracked_client_vfd vm = vfd" "fork_hooks vm"
  shows "\<exists>a v. fork_event e vm = Inr (a, v) \<and> \<not> accepted a \<and> fork_hooks v \<and>
    stopped (m_machine v) = stopped (m_machine vm) \<and> m_tracked_client_vfd v = m_tracked_client_vfd vm"
  using assms
  by (cases e) (auto simp: harmless_def fork_event_def fork_hooks_def callback_defs accepted_def)

lemma harmless_run:
  assumes "list_all (harmless vfd) es" "m_tracked_client_vfd vm = - 1 \<or> m_tracked_client_vfd vm = vfd"
    "fork_hooks vm" "\<not> stopped (m_machine vm)"
  shows "\<exists>as v. run_guest es vm = (None, as, v) \<and> filter accepted as = [] \<and> fork_hooks v \<and>
    \<not> stopped (m_machine v) \<and> m_tracked_client_vfd v = m_tracked_client_vfd vm"
  using assms
proof (induction es arbitrary: vm)
  case (Cons e es)
  obtain a v where v: "fork_event e vm = Inr (a, v)" "\<not> accepted a" "fork_hooks v"
      "\<not> stopped (m_machine v)" "m_tracked_client_vfd v = m_tracked_client_vfd vm"
    using harmless_event [of vfd e vm] Cons.prems by auto
  obtain as w where "run_guest es v = (None, as, w)" "filter accepted as = []" "fork_hooks w"
      "\<not> stopped (m_machine w)" "m_tracked_client_vfd w = m_tracked_client_vfd vm"
    using Cons.IH [of v] Cons.prems v by auto
  then show ?case using v Cons.prems(4) by (intro exI [of _ "a # as"] exI [of _ w]) simp
qed simp

lemma client_served:
  assumes "serves_client s" "fork_hooks vm" "m_tracked_client_vfd vm = - 1"
  shows "\<exists>as v. vmresume s vm = (None, as, v) \<and> length (filter accepted as) = 1 \<and> m_reset_needed v"
proof -
  obtain pre fd vfd mid post where s: "events s = pre @ AcceptedSocket fd vfd # mid @ FreedFd vfd # post"
      "0 \<le> fd" "0 \<le> vfd" "list_all (harmless vfd) pre" "list_all (harmless vfd) mid"
    using assms(1) by (auto simp: serves_client_def)
  let ?vm = "vm\<lparr>m_machine := (m_machine vm)\<lparr>stopped := False\<rparr>\<rparr>"
  have "m_tracked_client_vfd ?vm = - 1 \<or> m_tracked_client_vfd ?vm = vfd" "fork_hooks ?vm"
    "\<not> stopped (m_machine ?vm)"
    using assms(2,3) by (simp_all add: fork_hooks_def)
  from harmless_run [OF s(4) this] obtain as1 v1 where v1: "run_guest pre ?vm = (None, as1, v1)"
      "filter accepted as1 = []" "fork_hooks v1" "\<not> stopped (m_machine v1)" "m_tracked_client_vfd v1 = - 1"
    using assms(3) by auto
  let ?v2 = "v1\<lparr>m_tracked_client_fd := fd, m_tracked_client_vfd := vfd, m_blocking_connections := True\<rparr>"
  have e2: "fork_event (AcceptedSocket fd vfd) v1 = Inr (NewFd vfd, ?v2)"
    using v1(3,5) by (simp add: fork_event_def fork_hooks_def fork_accept_socket_def)
  have "m_tracked_client_vfd ?v2 = - 1 \<or> m_tracked_client_vfd ?v2 = vfd" "fork_hooks ?v2"
    "\<not> stopped (m_machine ?v2)"
    using v1(3,4) by (simp_all add: fork_hooks_def)
  from harmless_run [OF s(5) this] obtain as3 v3 where v3: "run_guest mid ?v2 = (None, as3, v3)"
      "filter accepted as3 = []" "fork_hooks v3" "\<not> stopped (m_machine v3)" "m_tracked_client_vfd v3 = vfd"
    by auto
  let ?v4 = "(stop v3)\<lparr>m_reset_needed := True\<rparr>"
  have e4: "fork_event (FreedFd vfd) v3 = Inr (Freed True, ?v4)"
    using v3(3,5) by (simp add: fork_event_def fork_hooks_def fork_free_fd_def)
  have "run_guest post ?v4 = (None, [], ?v4)" by (cases post) (simp_all add: stop_def)
  then have "run_guest (events s) ?vm = (None, as1 @ NewFd vfd # as3 @ [Freed True], ?v4)"
    unfolding s(1) using v1(1,4) e2 v3(1,4) e4 by (simp add: run_guest_append)
  moreover have "accepted (NewFd vfd)" "\<not> accepted (Freed True)" using s(3) by (simp_all add: accepted_def)
  ultimately show ?thesis
    using v1(2) v3(2) by (auto simp: vmresume_def stop_def)
qed

text \<open>
  C7: An ephemeral fork serves every client: as long as each guest session takes one connection and
  closes it, and neither the hypervisor nor the callback fails to reset, the loop serves all of them
  and is ready for the next one.
\<close>

theorem fork_serves_every_client:
  assumes "m_poll_method vm \<noteq> Undefined" "fork_inv vm" "ready vm" "list_all serves_client ss"
    and "\<forall>m options. \<exists>m'. reset_machine k m (m_machine master) options = Inr m'"
    and "\<forall>f c. on_reset = Some f \<longrightarrow> (\<exists>c'. f c = Inr c')"
  shows "\<exists>c' vm'. resume_loop k on_reset master ss (c, vm) = (StillRunning, [], c', vm') \<and> ready vm'"
  using assms(1-4)
proof (induction ss arbitrary: c vm)
  case Nil
  then show ?case by (cases "m_poll_method vm") (auto simp: restart_poll_syscall_def)
next
  case (Cons s ss)
  obtain nr where nr: "restart_poll_syscall vm = Inr nr"
    using Cons.prems(1) by (cases "m_poll_method vm") (auto simp: restart_poll_syscall_def)
  obtain as v where v: "vmresume s vm = (None, as, v)" "m_reset_needed v"
    using client_served [of s vm] Cons.prems by (auto simp: fork_inv_def ready_def)
  obtain m' where m': "reset_machine k (m_machine v) (m_machine master)
      (reset_options (default_options k) (max_address k (m_machine master)) (m_config master)) = Inr m'"
    using assms(5) by blast
  obtain c1 where c1: "(case on_reset of None \<Rightarrow> Inr c | Some f \<Rightarrow> f c) = Inr c1"
    using assms(6) by (cases on_reset) auto
  obtain w where w: "reset_to k on_reset master (c, v) = (None, c1, w)"
    using m' c1 by (simp add: reset_to_def Let_def)
  let ?w = "w\<lparr>m_reset_needed := False\<rparr>"
  have ready: "ready ?w" by (rule reset_to_ready [OF w])
  have same: "same_vm vm ?w"
    using vmresume_same [OF v(1)] reset_to_same(1) [OF w] by (simp add: same_vm_iff)
  have "fork_inv ?w"
    using Cons.prems(2) ready same by (simp add: fork_inv_def fork_hooks_def ready_def same_vm_iff)
  moreover have "m_poll_method ?w \<noteq> Undefined" using Cons.prems(1) same by (simp add: same_vm_iff)
  ultimately obtain c' vm' where "resume_loop k on_reset master ss (c1, ?w) = (StillRunning, [], c', vm')" "ready vm'"
    using Cons.IH [of ?w c1] ready Cons.prems(4) by auto
  then show ?case using nr v w by auto
qed

section \<open>Witnesses\<close>

definition example_master :: "nat VirtualMachine" where
  "example_master = \<lparr>m_machine = example_machine_state, m_fds = new_fds,
     m_config = default_configuration, m_original_binary = example_binary, m_binary_type = Static,
     m_reqid = 0, m_ephemeral = True, m_is_storage = False, m_reset_needed = False,
     m_waiting_for_requests = True, m_blocking_connections = False, m_tracked_client_fd = 5,
     m_tracked_client_vfd = 5, m_poll_method = Epoll\<rparr>"

definition example_fork :: "nat VirtualMachine" where
  "example_fork = \<lparr>m_machine = example_machine_state, m_fds = fork_fds new_fds default_configuration True,
     m_config = default_configuration, m_original_binary = example_binary, m_binary_type = Static,
     m_reqid = 3, m_ephemeral = True, m_is_storage = False, m_reset_needed = False,
     m_waiting_for_requests = False, m_blocking_connections = False, m_tracked_client_fd = - 1,
     m_tracked_client_vfd = - 1, m_poll_method = Epoll\<rparr>"

text \<open>A client that sends some work, while the guest tries to accept a second connection.\<close>

definition example_session :: "nat session" where
  "example_session = \<lparr>events = [AcceptCall 5, AcceptedSocket 9 6, GuestWork (regs example_machine_state) 99,
     AcceptCall 5, AcceptedSocket 10 8, FreedFd 7, FreedFd 6, AcceptCall 5], ends = None\<rparr>"

definition client_session :: "nat session" where
  "client_session = \<lparr>events = [AcceptCall 5, AcceptedSocket 9 6, GuestWork (regs example_machine_state) 99,
     AcceptCall 5, FreedFd 6, AcceptCall 5], ends = None\<rparr>"

lemma example_fork_new: "new_fork example_kvm example_master 3 False = Inr example_fork"
  by (simp add: new_fork_def example_kvm_def example_master_def example_fork_def set_verbose_def
      example_machine_state_def default_configuration_def)

lemma example_fork_inv: "fork_inv example_fork" "ready example_fork" "m_ephemeral example_master"
  by (simp_all add: fork_inv_def fork_hooks_def ready_def example_fork_def example_master_def fork_fds_def)

lemma example_session_ok: "session_ok example_session" "serves_client client_session"
proof -
  show "session_ok example_session" by (simp add: session_ok_def example_session_def)
  have "events client_session = [AcceptCall 5] @ AcceptedSocket 9 6 #
      [GuestWork (regs example_machine_state) 99, AcceptCall 5] @ FreedFd 6 # [AcceptCall 5]"
    by (simp add: client_session_def)
  moreover have "list_all (harmless 6) ([AcceptCall 5] @ [GuestWork (regs example_machine_state) (99 :: nat), AcceptCall 5])"
    by (simp add: harmless_def)
  ultimately show "serves_client client_session"
    unfolding serves_client_def
    by (intro exI [of _ "[AcceptCall 5]"] exI [of _ 9] exI [of _ 6]
        exI [of _ "[GuestWork (regs example_machine_state) 99, AcceptCall 5]"] exI [of _ "[AcceptCall 5]"]) simp
qed

theorem fork_blocks_iff_it_tracks_a_connection_witness:
  "\<exists>vm'. fork_event (AcceptedSocket 9 6) example_fork = Inr (NewFd 6, vm') \<and> m_blocking_connections vm' \<and>
     m_tracked_client_vfd vm' \<noteq> - 1"
proof -
  obtain vm' where e: "fork_event (AcceptedSocket 9 6) example_fork = Inr (NewFd 6, vm')"
      "m_tracked_client_vfd vm' = 6"
    by (simp add: fork_event_def fork_accept_socket_def example_fork_def fork_fds_def)
  have "fork_step example_kvm (None :: (nat \<Rightarrow> vm_error + nat) option) example_master example_fork vm'"
    by (rule fork_step.event [OF _ _ e(1)]) (simp_all add: example_fork_def example_machine_state_def)
  then have "(fork_step example_kvm (None :: (nat \<Rightarrow> vm_error + nat) option) example_master)\<^sup>*\<^sup>* example_fork vm'"
    by (rule r_into_rtranclp)
  from fork_blocks_iff_it_tracks_a_connection [OF example_fork_new example_fork_inv(3) this] e
  show ?thesis by auto
qed

theorem one_connection_per_session_witness:
  "\<exists>r as vm'. vmresume example_session example_fork = (r, as, vm') \<and>
     as = [Call True, NewFd 6, Worked, Call False, NewFd (- 11), Freed False, Freed True] \<and>
     length (filter accepted as) \<le> 1"
proof -
  have steps: "(fork_step example_kvm (None :: (nat \<Rightarrow> vm_error + nat) option) example_master)\<^sup>*\<^sup>*
      example_fork example_fork" by (rule rtranclp.rtrancl_refl)
  obtain r as vm' where r: "vmresume example_session example_fork = (r, as, vm')"
    by (cases "vmresume example_session example_fork") auto
  have "fst (snd (vmresume example_session example_fork)) =
      [Call True, NewFd 6, Worked, Call False, NewFd (- 11), Freed False, Freed True]" by code_simp
  with r have "as = [Call True, NewFd 6, Worked, Call False, NewFd (- 11), Freed False, Freed True]" by simp
  with r one_connection_per_session [OF example_fork_new example_fork_inv(3) steps r example_session_ok(1)]
  show ?thesis by blast
qed

theorem fork_refines_one_connection_server_witness:
  "\<exists>r as vm'. vmresume example_session example_fork = (r, as, vm') \<and>
     list_all2 answers_as [Some (Call True), Some (NewFd 6), None, Some (Call False), Some (NewFd (- 11)),
       Some (Freed False), Some (Freed True)] as \<and> connection vm' = Some 6"
proof -
  have steps: "(fork_step example_kvm (None :: (nat \<Rightarrow> vm_error + nat) option) example_master)\<^sup>*\<^sup>*
      example_fork example_fork" by (rule rtranclp.rtrancl_refl)
  obtain r as vm' where r: "vmresume example_session example_fork = (r, as, vm')"
    by (cases "vmresume example_session example_fork") auto
  have "length (fst (snd (vmresume example_session example_fork))) = 7" by code_simp
  with r have "length as = 7" by simp
  moreover have "one_connection_trace (take 7 (events example_session)) (connection example_fork) =
      ([Some (Call True), Some (NewFd 6), None, Some (Call False), Some (NewFd (- 11)), Some (Freed False),
        Some (Freed True)], Some 6)" by code_simp
  ultimately show ?thesis
    using r fork_refines_one_connection_server [OF example_fork_new example_fork_inv(3) steps r example_session_ok(1)]
    by auto
qed

theorem fork_serves_every_client_witness:
  "\<exists>c' vm'. resume_loop example_kvm (Some (\<lambda>n. Inr (Suc n))) example_master [client_session, client_session]
      (0 :: nat, example_fork) = (StillRunning, [], c', vm') \<and> ready vm'"
proof (rule fork_serves_every_client)
  show "m_poll_method example_fork \<noteq> Undefined" by (simp add: example_fork_def)
  show "list_all serves_client [client_session, client_session]" using example_session_ok(2) by simp
  show "\<forall>m options. \<exists>m'. reset_machine example_kvm m (m_machine example_master) options = Inr m'"
    by (simp add: example_kvm_def)
qed (simp_all add: example_fork_inv)

theorem sessions_start_from_the_master_state_witness:
  "\<exists>c' vm'. resume_loop example_kvm None example_master [client_session] (0 :: nat, example_fork) =
      (StillRunning, [], c', vm') \<and> memory (m_machine vm') = 7"
proof -
  let ?r = "resume_loop example_kvm None example_master [client_session] (0 :: nat, example_fork)"
  have "fst ?r = StillRunning" "fst (snd ?r) = []" by code_simp+
  then obtain c' vm' where r: "?r = (StillRunning, [], c', vm')" by (metis prod.collapse)
  have "\<forall>m options m'. reset_machine example_kvm m (m_machine example_master) options = Inr m' \<longrightarrow>
      max_mem options = max_address example_kvm (m_machine example_master) \<longrightarrow>
      memory m' = memory (m_machine example_master) \<and>
      (reset_copy_all_registers options \<longrightarrow> regs m' = regs (m_machine example_master))"
    by (simp add: example_kvm_def)
  from sessions_start_from_the_master_state [OF this r] have "memory (m_machine vm') = 7"
    by (simp add: example_master_def example_machine_state_def)
  with r show ?thesis by blast
qed

end
