(* ===== verification/ForkThread.thy ===== *)
theory ForkThread
  imports Server Forks
begin

text \<open>
  The thread of a fork (main.cpp): how it makes its fork, the reset counters, and a turn of its loop.
\<close>

section \<open>The reset counters\<close>

text \<open>
  The array of 64 counters and the callback of fork \<open>i\<close>: \<open>at(i)\<close> throws beyond the array, and the
  progress message of fork 0 reads one counter for each fork without a check.
\<close>

type_synonym counters = "u64 list"

definition new_counters :: counters where
  "new_counters = replicate 64 0"

definition count_reset :: "Configuration \<Rightarrow> nat \<Rightarrow> counters \<Rightarrow> vm_error + counters" where
  "count_reset config i counters =
     (if \<not> verbose config then Inr counters
      else if length counters \<le> i then Inl (OutOfRangeError ''array::at'')
      else
        let reset_counter = counters ! i;
            counters = counters[i := reset_counter + 1]
        in if i = 0 \<and> reset_counter mod 64 = 0 \<and> length counters < unat (concurrency config)
           then Inl (UndefinedRead ''reset_counters[j]'')
           else Inr counters)"

section \<open>A fork thread\<close>

text \<open>The machines of one thread: the fork, and its own storage fork when there is one per fork.\<close>

definition start_fork ::
  "'m tinykvm \<Rightarrow> 'm VirtualMachine \<Rightarrow> 'm VirtualMachine option \<Rightarrow> nat
   \<Rightarrow> vm_error + ('m VirtualMachine \<times> 'm VirtualMachine option)" where
  "start_fork k vm storage_vm i =
     then_do (new_fork k vm (word_of_nat i) False) (\<lambda>fork.
       case storage_vm of
         Some s \<Rightarrow>
           if storage (m_config vm) \<and> storage_1_to_1 (m_config vm) \<and> i < unat (concurrency (m_config vm)) then
             then_do (new_fork k s (word_of_nat i) True) (\<lambda>storage_fork.
               Inr (connect_storage (m_config vm) storage_fork fork, Some storage_fork))
           else Inr (fork, None)
       | None \<Rightarrow> Inr (fork, None))"

text \<open>
  One turn of the loop of a thread: the fork is resumed; when it returns or fails it is reset, and an
  exception of that reset is only reported.
\<close>

definition fork_turn_with ::
  "'m tinykvm \<Rightarrow> ('c \<Rightarrow> vm_error + 'c) \<Rightarrow> 'm VirtualMachine \<Rightarrow> 'm session list \<times> 'c \<times> 'm VirtualMachine
   \<Rightarrow> 'm session list \<times> 'c \<times> 'm VirtualMachine" where
  "fork_turn_with k on_reset master = (\<lambda>(sessions, c, vm).
     case resume_fork k (Some on_reset) master sessions (c, vm) of
       (StillRunning, rest, c, vm) \<Rightarrow> (rest, c, vm)
     | (Returned, rest, c, vm) \<Rightarrow>
         if m_ephemeral master then (rest, snd (reset_to k (Some on_reset) master (c, vm)))
         else (rest, c, vm)
     | (Threw _, rest, c, vm) \<Rightarrow> (rest, snd (reset_to k (Some on_reset) master (c, vm))))"

definition fork_turn ::
  "'m tinykvm \<Rightarrow> 'm VirtualMachine \<Rightarrow> nat \<Rightarrow> 'm session list \<times> counters \<times> 'm VirtualMachine
   \<Rightarrow> 'm session list \<times> counters \<times> 'm VirtualMachine" where
  "fork_turn k master i = fork_turn_with k (count_reset (m_config master) i) master"

section \<open>The debugger in a thread\<close>

text \<open>
  With \<open>DEBUG_FORK\<close> the debugger is opened on a new fork; with \<open>DEBUG\<close> it is opened on a fork that failed,
  before the reset.  \<open>None\<close> is a debugger that never returns.
\<close>

definition fork_run :: "'m guest_event list \<Rightarrow> 'm VirtualMachine \<Rightarrow> vm_error option \<times> 'm VirtualMachine" where
  "fork_run es vm =
     (case run_guest es (vm\<lparr>m_machine := (m_machine vm)\<lparr>stopped := False\<rparr>\<rparr>) of (r, _, vm) \<Rightarrow> (r, vm))"

definition start_thread ::
  "'m tinykvm \<Rightarrow> string list \<Rightarrow> 'm guest_event debugger \<Rightarrow> 'm VirtualMachine \<Rightarrow> 'm VirtualMachine option \<Rightarrow> nat
   \<Rightarrow> (vm_error + ('m VirtualMachine \<times> 'm VirtualMachine option)) option" where
  "start_thread k env d vm storage_vm i =
     (case start_fork k vm storage_vm i of
        Inl err \<Rightarrow> Some (Inl err)
      | Inr (fork, storage_fork) \<Rightarrow>
          if getenv env ''DEBUG_FORK'' \<noteq> None then
            (case open_debugger fork_run d fork of
               None \<Rightarrow> None
             | Some (Some err, _) \<Rightarrow> Some (Inl err)
             | Some (None, fork) \<Rightarrow> Some (Inr (fork, storage_fork)))
          else Some (Inr (fork, storage_fork)))"

text \<open>
  How a turn of the loop ends.  The debugger is opened outside the \<open>try\<close> of the loop, so its own exception
  leaves the thread function and terminates the process.
\<close>

datatype 'a turn = Going 'a | InDebugger | Terminated vm_error

definition debugged_turn ::
  "'m tinykvm \<Rightarrow> ('c \<Rightarrow> vm_error + 'c) \<Rightarrow> string list \<Rightarrow> 'm guest_event debugger \<Rightarrow> 'm VirtualMachine
   \<Rightarrow> 'm session list \<times> 'c \<times> 'm VirtualMachine \<Rightarrow> ('m session list \<times> 'c \<times> 'm VirtualMachine) turn" where
  "debugged_turn k on_reset env d master = (\<lambda>(sessions, c, vm).
     case resume_fork k (Some on_reset) master sessions (c, vm) of
       (Threw err, rest, c, vm) \<Rightarrow>
         if getenv env ''DEBUG'' \<noteq> None then
           (case open_debugger fork_run d vm of
              None \<Rightarrow> InDebugger
            | Some (Some err, _) \<Rightarrow> Terminated err
            | Some (None, vm) \<Rightarrow> Going (rest, snd (reset_to k (Some on_reset) master (c, vm))))
         else Going (rest, snd (reset_to k (Some on_reset) master (c, vm)))
     | _ \<Rightarrow> Going (fork_turn_with k on_reset master (sessions, c, vm)))"

section \<open>A thread follows the steps of its fork\<close>

lemma fork_run_steps:
  assumes "list_all event_ok es" "fork_run es vm = (r, vm')"
  shows "(fork_step k on_reset master)\<^sup>*\<^sup>* vm vm'"
proof -
  obtain as where "run_guest es (vm\<lparr>m_machine := (m_machine vm)\<lparr>stopped := False\<rparr>\<rparr>) = (r, as, vm')"
    using assms(2) by (auto simp: fork_run_def split: prod.splits)
  from converse_rtranclp_into_rtranclp [OF fork_step.resume run_guest_steps [OF this assms(1)]] show ?thesis .
qed

interpretation debugged_fork: kept_by_runs fork_run "list_all event_ok" "(fork_step k on_reset master)\<^sup>*\<^sup>*"
  for k and on_reset :: "('c \<Rightarrow> vm_error + 'c) option" and master
  by unfold_locales (auto intro: fork_run_steps)

lemma resume_fork_steps:
  assumes "resume_fork k on_reset master ss (c, vm) = (x, rest, c', vm')" "list_all session_ok ss"
  shows "(fork_step k on_reset master)\<^sup>*\<^sup>* vm vm'"
proof (cases "m_ephemeral vm")
  case True
  then show ?thesis using assms resume_loop_steps by (simp add: resume_fork_def)
next
  case False
  show ?thesis
  proof (cases ss)
    case (Cons s ss')
    obtain r as v where "vmresume s vm = (r, as, v)" by (cases "vmresume s vm")
    then show ?thesis
      using assms False Cons vmresume_steps [of s vm r as v]
      by (auto simp: resume_fork_def split: option.splits)
  qed (use assms(1) False in \<open>simp add: resume_fork_def\<close>)
qed

lemma debugged_turn_steps:
  assumes "debugged_turn k f env d master (ss, c, vm) = Going (rest, c', vm')" "list_all session_ok ss"
    and "list_all (list_all (list_all event_ok \<circ> fst)) (rsp_clients d)"
  shows "(fork_step k (Some f) master)\<^sup>*\<^sup>* vm vm'"
proof -
  obtain x r1 c1 v where x: "resume_fork k (Some f) master ss (c, vm) = (x, r1, c1, v)"
    by (cases "resume_fork k (Some f) master ss (c, vm)")
  note steps = resume_fork_steps [OF x assms(2)]
  have reset: "(fork_step k (Some f) master)\<^sup>*\<^sup>* v w"
    if "snd (reset_to k (Some f) master (c1, u)) = (c', w)" "(fork_step k (Some f) master)\<^sup>*\<^sup>* v u" for u w
    using that by (cases "reset_to k (Some f) master (c1, u)")
      (auto intro: rtranclp.rtrancl_into_rtrancl fork_step.thread_reset)
  have debug: "(fork_step k (Some f) master)\<^sup>*\<^sup>* v u" if "open_debugger fork_run d v = Some (None, u)" for u
    using debugged_fork.open_debugger_keeps [OF assms(3) that] .
  have "(fork_step k (Some f) master)\<^sup>*\<^sup>* v vm'"
    using assms(1) x debug
    by (cases x) (auto intro: reset simp: debugged_turn_def fork_turn_with_def split: if_splits option.splits)
  with steps show ?thesis by (rule rtranclp_trans)
qed

text \<open>Without \<open>DEBUG\<close> a turn is the plain one, and without \<open>DEBUG_FORK\<close> a thread starts with its fork.\<close>

lemma debugged_turn_plain:
  "getenv env ''DEBUG'' = None \<Longrightarrow> debugged_turn k f env d master s = Going (fork_turn_with k f master s)"
  by (cases s) (auto simp: debugged_turn_def fork_turn_with_def split: prod.splits fork_exit.splits)

lemma start_thread_plain:
  "getenv env ''DEBUG_FORK'' = None \<Longrightarrow> start_thread k env d vm sv i = Some (start_fork k vm sv i)"
  by (auto simp: start_thread_def split: sum.splits prod.splits)

section \<open>Properties of a fork thread\<close>

lemma start_fork_cases:
  assumes "start_fork k master storage_vm i = Inr (vm, storage_fork)"
  obtains f where "new_fork k master (word_of_nat i) False = Inr f"
    "vm = link_storage (m_config master) storage_fork f"
  using assms by (auto simp: start_fork_def link_storage_def then_do_Inr_iff split: option.splits if_splits)

text \<open>The fork tracks no connection and accepts one.\<close>

definition idle :: "'m VirtualMachine \<Rightarrow> bool" where
  "idle vm \<longleftrightarrow> m_tracked_client_vfd vm = - 1 \<and> m_tracked_client_fd vm = - 1 \<and> \<not> m_blocking_connections vm"

text \<open>When the callback of a fork returns normally.\<close>

definition counters_ok :: "Configuration \<Rightarrow> nat \<Rightarrow> counters \<Rightarrow> bool" where
  "counters_ok config i c \<longleftrightarrow>
     \<not> verbose config \<or> i < length c \<and> (i = 0 \<longrightarrow> unat (concurrency config) \<le> length c)"

lemma count_reset_ok:
  assumes "counters_ok config i c"
  obtains c' where "count_reset config i c = Inr c'" "counters_ok config i c'"
  using assms by (cases "verbose config") (auto simp: counters_ok_def count_reset_def Let_def)

lemma reset_to_succeeds:
  assumes "\<forall>m options. \<exists>m'. reset_machine k m (m_machine master) options = Inr m'" "f c = Inr c'"
  obtains vm' where "reset_to k (Some f) master (c, vm) = (None, c', vm')" "idle vm'" "same_vm vm vm'"
proof -
  obtain m' where "reset_machine k (m_machine vm) (m_machine master)
      (reset_options (default_options k) (max_address k (m_machine master)) (m_config master)) = Inr m'"
    using assms(1) by blast
  then show thesis
    using that assms(2) by (simp add: reset_to_def Let_def idle_def same_vm_iff)
qed

lemma resume_loop_idle:
  assumes total: "\<forall>m options. \<exists>m'. reset_machine k m (m_machine master) options = Inr m'"
    and "counters_ok config i c" "idle vm"
    and "resume_loop k (Some (count_reset config i)) master ss (c, vm) = (x, rest, c', vm')"
  shows "counters_ok config i c' \<and> same_vm vm vm' \<and> (x = StillRunning \<longrightarrow> idle vm')"
  using assms(2-4)
proof (induction ss arbitrary: c vm)
  case Nil
  then show ?case by (auto split: sum.splits)
next
  case (Cons s ss)
  show ?case
  proof (cases "restart_poll_syscall vm")
    case (Inl err)
    then show ?thesis using Cons.prems by simp
  next
    case (Inr nr)
    obtain r as v where v: "vmresume s vm = (r, as, v)" by (cases "vmresume s vm") auto
    note same = vmresume_same [OF v]
    show ?thesis
    proof (cases "r = None \<and> m_reset_needed v")
      case False
      then have "x \<noteq> StillRunning" "vm' = v" "c' = c"
        using Cons.prems(3) Inr v by (auto split: option.splits if_splits)
      then show ?thesis using Cons.prems(1) same by simp
    next
      case True
      obtain c1 where c1: "count_reset config i c = Inr c1" "counters_ok config i c1"
        using count_reset_ok [OF Cons.prems(1)] .
      obtain w where w: "reset_to k (Some (count_reset config i)) master (c, v) = (None, c1, w)" "idle w" "same_vm v w"
        using reset_to_succeeds [where f = "count_reset config i" and c = c, OF total c1(1)] .
      have "counters_ok config i c' \<and> same_vm (w\<lparr>m_reset_needed := False\<rparr>) vm' \<and> (x = StillRunning \<longrightarrow> idle vm')"
        using Cons.prems(3) Inr v True w
        by (intro Cons.IH [OF c1(2)]) (simp_all add: idle_def)
      then show ?thesis using same w(3) by (simp add: same_vm_iff)
    qed
  qed
qed

lemma fork_turn_idle:
  assumes total: "\<forall>m options. \<exists>m'. reset_machine k m (m_machine master) options = Inr m'"
    and "m_ephemeral master" "m_ephemeral vm" "counters_ok (m_config master) i c" "idle vm"
    and "fork_turn k master i (ss, c, vm) = (rest, c', vm')"
  shows "m_ephemeral vm' \<and> counters_ok (m_config master) i c' \<and> idle vm'"
proof -
  let ?f = "count_reset (m_config master) i"
  obtain x rest1 c1 v where loop: "resume_loop k (Some ?f) master ss (c, vm) = (x, rest1, c1, v)"
    by (cases "resume_loop k (Some ?f) master ss (c, vm)") auto
  note v = resume_loop_idle [OF total assms(4,5) loop]
  obtain c2 where c2: "?f c1 = Inr c2" "counters_ok (m_config master) i c2"
    using count_reset_ok v by blast
  obtain w where w: "reset_to k (Some ?f) master (c1, v) = (None, c2, w)" "idle w" "same_vm v w"
    using reset_to_succeeds [where f = "count_reset (m_config master) i" and c = c1, OF total c2(1)] .
  have eph: "m_ephemeral v" "m_ephemeral w" using v w(3) assms(3) by (simp_all add: same_vm_iff)
  show ?thesis
  proof (cases x)
    case StillRunning
    then show ?thesis using assms(3,6) loop v eph(1) by (simp add: fork_turn_def fork_turn_with_def resume_fork_def)
  next
    case Returned
    then show ?thesis
      using assms(2,3,6) loop w c2(2) eph(2) by (auto simp: fork_turn_def fork_turn_with_def resume_fork_def)
  next
    case (Threw err)
    then show ?thesis
      using assms(3,6) loop w c2(2) eph(2) by (auto simp: fork_turn_def fork_turn_with_def resume_fork_def)
  qed
qed

text \<open>
  A fork is ready for a connection after every turn of its thread, whatever its guest did and however it
  ended, exceptions included.
\<close>

lemma fork_idle_after_turns:
  assumes "\<forall>m options. \<exists>m'. reset_machine k m (m_machine master) options = Inr m'"
    and "m_ephemeral master" "start_fork k master storage_vm i = Inr (vm, storage_fork)"
    and "counters_ok (m_config master) i c"
  shows "idle (snd (snd ((fork_turn k master i ^^ n) (ss, c, vm))))"
proof -
  obtain f sv where f: "new_fork k master (word_of_nat i) False = Inr f" "vm = link_storage (m_config master) sv f"
    by (rule start_fork_cases [OF assms(3)])
  then have vm: "m_ephemeral vm" "idle vm"
    using new_fork_ready(1,2) [OF f(1)] assms(2)
    by (simp_all add: ready_def idle_def link_storage_fields)
  have "case (fork_turn k master i ^^ n) (ss, c, vm) of (ss', c', vm') \<Rightarrow>
      m_ephemeral vm' \<and> counters_ok (m_config master) i c' \<and> idle vm'"
  proof (induction n)
    case 0
    then show ?case using vm assms(4) by simp
  next
    case (Suc n)
    obtain ss' c' vm' where t: "(fork_turn k master i ^^ n) (ss, c, vm) = (ss', c', vm')"
      by (cases "(fork_turn k master i ^^ n) (ss, c, vm)") auto
    obtain ss2 c2 vm2 where t2: "fork_turn k master i (ss', c', vm') = (ss2, c2, vm2)"
      by (cases "fork_turn k master i (ss', c', vm')") auto
    show ?case
      using fork_turn_idle [OF assms(1,2) _ _ _ t2] Suc.IH t t2 by simp
  qed
  then show ?thesis by (simp split: prod.splits)
qed

text \<open>A fork that serves a connection, and its reset by a callback that throws.\<close>

definition serving :: "int \<Rightarrow> 'm VirtualMachine \<Rightarrow> bool" where
  "serving vfd vm \<longleftrightarrow> m_ephemeral vm \<and> fork_hooks vm \<and> vfd \<noteq> - 1 \<and> m_tracked_client_vfd vm = vfd"

lemma vmresume_serving:
  assumes "vmresume s vm = (r, as, vm')" "serving vfd vm"
  shows "serving vfd vm' \<and> filter accepted as = []"
proof -
  let ?vm = "vm\<lparr>m_machine := (m_machine vm)\<lparr>stopped := False\<rparr>\<rparr>"
  obtain r' where run: "run_guest (events s) ?vm = (r', as, vm')"
    using assms(1) by (auto simp: vmresume_def split: prod.splits option.splits)
  have "fork_hooks ?vm" "m_tracked_client_vfd ?vm \<noteq> - 1"
    using assms(2) by (simp_all add: serving_def fork_hooks_def)
  from run_while_tracking [OF run this] vmresume_same [OF assms(1)] assms(2) show ?thesis
    by (simp add: serving_def fork_hooks_def same_vm_iff)
qed

lemma reset_beyond_counters:
  assumes "verbose config" "length c \<le> i"
  shows "\<exists>err vm'. reset_to k (Some (count_reset config i)) master (c, vm) = (Some err, c, vm') \<and>
    (serving vfd vm \<longrightarrow> serving vfd vm')"
proof -
  obtain r c' vm' where r: "reset_to k (Some (count_reset config i)) master (c, vm) = (r, c', vm')"
    by (cases "reset_to k (Some (count_reset config i)) master (c, vm)") auto
  have "count_reset config i c = Inl (OutOfRangeError ''array::at'')"
    using assms by (simp add: count_reset_def)
  then obtain err where err: "r = Some err"
    using r by (auto simp: reset_to_def Let_def split: sum.splits)
  note fails = reset_to_fails [OF r [unfolded err]] reset_to_same [OF r]
  then have "serving vfd vm \<longrightarrow> serving vfd vm'"
    by (simp add: serving_def fork_hooks_def same_vm_iff)
  with r err fails(1) show ?thesis by blast
qed

lemma resume_loop_beyond_counters:
  assumes "verbose config" "length c \<le> i" "serving vfd vm"
    and "resume_loop k (Some (count_reset config i)) master ss (c, vm) = (x, rest, c', vm')"
  shows "c' = c \<and> serving vfd vm'"
proof (cases ss)
  case Nil
  then show ?thesis using assms(3,4) by (auto split: sum.splits)
next
  case (Cons s ss')
  obtain r as v where v: "vmresume s vm = (r, as, v)" by (cases "vmresume s vm") auto
  have sv: "serving vfd v" using vmresume_serving [OF v assms(3)] by simp
  obtain err w where w: "reset_to k (Some (count_reset config i)) master (c, v) = (Some err, c, w)" "serving vfd w"
    using reset_beyond_counters [OF assms(1,2), of k master v vfd] sv by blast
  show ?thesis
    using assms(3,4) Cons v sv w by (auto split: sum.splits option.splits if_splits)
qed

text \<open>
  C16: A verbose server loses its ephemeral forks with a number of 64 or more: once such a fork has taken a
  connection, the reset callback throws at every reset, so the fork keeps the closed connection and
  refuses every other one, for any number of turns of its loop.
\<close>

theorem verbose_fork_beyond_counters_never_recovers:
  assumes "verbose (m_config master)" "length c \<le> i" "m_ephemeral vm" "fork_inv vm"
    and "m_tracked_client_vfd vm \<noteq> - 1"
  shows "m_tracked_client_vfd (snd (snd ((fork_turn k master i ^^ n) (ss, c, vm)))) = m_tracked_client_vfd vm \<and>
    (\<forall>s r as vm'. vmresume s (snd (snd ((fork_turn k master i ^^ n) (ss, c, vm)))) = (r, as, vm') \<longrightarrow>
       filter accepted as = [])"
proof -
  let ?vfd = "m_tracked_client_vfd vm"
  have "case (fork_turn k master i ^^ n) (ss, c, vm) of (ss', c', vm') \<Rightarrow> c' = c \<and> serving ?vfd vm'"
  proof (induction n)
    case 0
    then show ?case using assms(3-5) by (simp add: serving_def fork_inv_def)
  next
    case (Suc n)
    then obtain ss1 v where t: "(fork_turn k master i ^^ n) (ss, c, vm) = (ss1, c, v)" "serving ?vfd v"
      by (auto split: prod.splits)
    obtain x rest c' w where loop: "resume_loop k (Some (count_reset (m_config master) i)) master ss1 (c, v) = (x, rest, c', w)"
      by (cases "resume_loop k (Some (count_reset (m_config master) i)) master ss1 (c, v)") auto
    have w: "c' = c" "serving ?vfd w"
      using resume_loop_beyond_counters [OF assms(1,2) t(2) loop] by simp_all
    obtain err u where u: "reset_to k (Some (count_reset (m_config master) i)) master (c, w) = (Some err, c, u)"
        "serving ?vfd u"
      using reset_beyond_counters [OF assms(1,2), of k master w ?vfd] w(2) by blast
    have "m_ephemeral v" using t(2) by (simp add: serving_def)
    then have "fork_turn k master i (ss1, c, v) = (rest, c, w) \<or> fork_turn k master i (ss1, c, v) = (rest, c, u)"
      using loop w(1) u(1) by (cases x) (simp_all add: fork_turn_def fork_turn_with_def resume_fork_def)
    then show ?case using t(1) w(2) u(2) by auto
  qed
  then have "serving ?vfd (snd (snd ((fork_turn k master i ^^ n) (ss, c, vm))))" by (simp split: prod.splits)
  then show ?thesis using vmresume_serving by (metis serving_def)
qed

section \<open>Witnesses\<close>

definition verbose_master :: "nat VirtualMachine" where
  "verbose_master = example_master\<lparr>m_config := default_configuration\<lparr>verbose := True\<rparr>\<rparr>"

theorem verbose_fork_beyond_counters_never_recovers_witness:
  "\<exists>vm. fork_event (AcceptedSocket 9 6) example_fork = Inr (NewFd 6, vm) \<and>
    m_tracked_client_vfd (snd (snd ((fork_turn example_kvm verbose_master 64 ^^ 5)
      (replicate 5 client_session, new_counters, vm)))) = 6"
proof -
  obtain vm where e: "fork_event (AcceptedSocket 9 6) example_fork = Inr (NewFd 6, vm)"
      "m_tracked_client_vfd vm = 6"
    by (simp add: fork_event_def fork_accept_socket_def example_fork_def fork_fds_def)
  have inv: "fork_inv vm" by (rule fork_event_inv [OF example_fork_inv(1) _ e(1)]) simp
  have "verbose (m_config verbose_master)" "length new_counters \<le> 64" "m_ephemeral vm"
    using inv by (simp_all add: verbose_master_def new_counters_def fork_inv_def)
  from verbose_fork_beyond_counters_never_recovers [OF this inv] e show ?thesis by auto
qed

end
