(* ===== verification/Threads.thy ===== *)
theory Threads
  imports ForkThread
begin

text \<open>
  The threads of the server (main.cpp): one thread per fork, each with its own fork, all of them with
  the array of reset counters in common.  A schedule is the sequence of the turns the threads take;
  the counters are atomic, and a thread changes its own one only, so a turn is taken as one step.  The
  guest of a thread follows a script of its own; the memory of a storage machine that several forks call,
  one at a time under its mutex, is outside the state.
\<close>

section \<open>The threads\<close>

text \<open>A thread whose fork could not be made has ended; another one has its fork and its sessions to come.\<close>

type_synonym 'm fork_thread = "('m session list \<times> 'm VirtualMachine) option"

definition start_threads ::
  "'m tinykvm \<Rightarrow> 'm VirtualMachine \<Rightarrow> 'm VirtualMachine option \<Rightarrow> (nat \<Rightarrow> 'm session list) \<Rightarrow> 'm fork_thread list" where
  "start_threads k vm storage_vm sessions =
     map (\<lambda>i. case start_fork k vm storage_vm i of
                Inl err \<Rightarrow> None
              | Inr (fork, storage_fork) \<Rightarrow> Some (sessions i, fork))
       [0..<unat (concurrency (m_config vm))]"

definition thread_turn ::
  "'m tinykvm \<Rightarrow> 'm VirtualMachine \<Rightarrow> nat \<Rightarrow> counters \<times> 'm fork_thread list \<Rightarrow> counters \<times> 'm fork_thread list" where
  "thread_turn k master i = (\<lambda>(c, ts).
     if i < length ts then
       (case ts ! i of
          None \<Rightarrow> (c, ts)
        | Some (ss, vm) \<Rightarrow>
            (case fork_turn k master i (ss, c, vm) of (ss, c, vm) \<Rightarrow> (c, ts[i := Some (ss, vm)])))
     else (c, ts))"

definition run_threads ::
  "'m tinykvm \<Rightarrow> 'm VirtualMachine \<Rightarrow> nat list \<Rightarrow> counters \<times> 'm fork_thread list \<Rightarrow> counters \<times> 'm fork_thread list" where
  "run_threads k master = fold (thread_turn k master)"

section \<open>The contract of a reset callback\<close>

text \<open>
  Two reset callbacks that give the same outcome on related states: then a reset, the loop of a fork and
  a turn of its thread do the same to the fork and keep the states related.
\<close>

locale related_callbacks =
  fixes f :: "'c \<Rightarrow> vm_error + 'c" and g :: "'d \<Rightarrow> vm_error + 'd" and rel :: "'c \<Rightarrow> 'd \<Rightarrow> bool"
  assumes same_outcome: "rel c d \<Longrightarrow> rel_sum (=) rel (f c) (g d)"
begin

lemma reset_to_related:
  assumes "rel c d" "reset_to k (Some f) master (c, vm) = (r, c', vm')"
  obtains d' where "reset_to k (Some g) master (d, vm) = (r, d', vm')" "rel c' d'"
  using assms same_outcome [OF assms(1)]
  by (cases "f c"; cases "g d") (auto simp: reset_to_def Let_def split: sum.splits)

lemma resume_loop_related:
  assumes "rel c d" "resume_loop k (Some f) master ss (c, vm) = (x, rest, c', vm')"
  shows "\<exists>d'. resume_loop k (Some g) master ss (d, vm) = (x, rest, d', vm') \<and> rel c' d'"
  using assms
proof (induction ss arbitrary: c d vm)
  case Nil
  then show ?case by (auto split: sum.splits)
next
  case (Cons s ss)
  show ?case
  proof (cases "restart_poll_syscall vm")
    case (Inl err)
    then show ?thesis using Cons.prems by auto
  next
    case (Inr nr)
    obtain r as v where v: "vmresume s vm = (r, as, v)" by (cases "vmresume s vm") auto
    show ?thesis
    proof (cases "r = None \<and> m_reset_needed v")
      case False
      then show ?thesis using Cons.prems Inr v by (auto split: option.splits if_splits)
    next
      case True
      obtain q c1 w where q: "reset_to k (Some f) master (c, v) = (q, c1, w)"
        by (cases "reset_to k (Some f) master (c, v)") auto
      obtain d1 where d1: "reset_to k (Some g) master (d, v) = (q, d1, w)" "rel c1 d1"
        using reset_to_related [OF Cons.prems(1) q] .
      show ?thesis
        using Cons.prems(2) Cons.IH [OF d1(2)] Inr v True q d1 by (cases q) auto
    qed
  qed
qed

lemma fork_turn_with_related:
  assumes "rel c d" "fork_turn_with k f master (ss, c, vm) = (rest, c', vm')"
  shows "\<exists>d'. fork_turn_with k g master (ss, d, vm) = (rest, d', vm') \<and> rel c' d'"
proof -
  obtain x r1 c1 v where x: "resume_fork k (Some f) master ss (c, vm) = (x, r1, c1, v)"
    by (cases "resume_fork k (Some f) master ss (c, vm)") auto
  obtain d1 where d1: "resume_fork k (Some g) master ss (d, vm) = (x, r1, d1, v)" "rel c1 d1"
  proof (cases "m_ephemeral vm")
    case True
    then show thesis using that x resume_loop_related [OF assms(1), of k master ss vm x r1 c1 v]
      by (auto simp: resume_fork_def)
  next
    case False
    then show thesis using that x assms(1)
      by (auto simp: resume_fork_def split: list.splits prod.splits option.splits)
  qed
  obtain q c2 w where q: "reset_to k (Some f) master (c1, v) = (q, c2, w)"
    by (cases "reset_to k (Some f) master (c1, v)") auto
  obtain d2 where d2: "reset_to k (Some g) master (d1, v) = (q, d2, w)" "rel c2 d2"
    using reset_to_related [OF d1(2) q] .
  show ?thesis
    using assms(2) x d1 q d2 by (cases x) (auto simp: fork_turn_with_def split: if_splits)
qed

end

text \<open>A callback that keeps a property of its state.\<close>

locale callback_invariant =
  fixes f :: "'c \<Rightarrow> vm_error + 'c" and keeps :: "'c \<Rightarrow> bool"
  assumes callback_keeps: "keeps c \<Longrightarrow> f c = Inr c' \<Longrightarrow> keeps c'"

sublocale callback_invariant \<subseteq> itself: related_callbacks f f "\<lambda>c d. keeps c \<and> c = d"
proof
  show "rel_sum (=) (\<lambda>c d. keeps c \<and> c = d) (f c) (f d)" if "keeps c \<and> c = d" for c d
    using that by (cases "f c") (auto intro: callback_keeps)
qed

context callback_invariant
begin

lemma turn_keeps: "keeps c \<Longrightarrow> fork_turn_with k f master (ss, c, vm) = (rest, c', vm') \<Longrightarrow> keeps c'"
  using itself.fork_turn_with_related by metis

end

section \<open>The counters satisfy it\<close>

text \<open>Two arrays of counters a fork cannot tell apart: they have the same length and its own counter.\<close>

definition agree :: "nat \<Rightarrow> counters \<Rightarrow> counters \<Rightarrow> bool" where
  "agree i c d \<longleftrightarrow> length c = length d \<and> (i < length c \<longrightarrow> c ! i = d ! i)"

interpretation own_counter: related_callbacks "count_reset config i" "count_reset config i" "agree i"
  for config and i
  by unfold_locales (auto simp: agree_def count_reset_def Let_def)

interpretation other_counter: callback_invariant "count_reset config j" "\<lambda>c. i \<noteq> j \<longrightarrow> agree i c0 c"
  for config and i and j and c0
  by unfold_locales (auto simp: agree_def count_reset_def Let_def split: if_splits)

lemma thread_turn_length: "length (snd (thread_turn k master j (c, ts))) = length ts"
  by (auto simp: thread_turn_def split: option.splits prod.splits)

text \<open>A turn of another thread.\<close>

lemma thread_turn_other:
  assumes "i \<noteq> j" "thread_turn k master j (c, ts) = (c', ts')" "i < length ts"
  shows "ts' ! i = ts ! i \<and> agree i c c'"
proof -
  have "agree i c c'" if "fork_turn k master j (ss, c, vm) = (ss', c', vm')" for ss vm ss' vm'
    using other_counter.turn_keeps [of i j c c k "m_config master" master] that assms(1)
    by (auto simp: fork_turn_def agree_def)
  then show ?thesis
    using assms by (auto simp: thread_turn_def agree_def split: if_splits option.splits prod.splits)
qed

lemma run_threads_length: "length (snd (run_threads k master schedule (c, ts))) = length ts"
proof (induction schedule arbitrary: c ts)
  case (Cons j schedule)
  obtain c1 ts1 where t: "thread_turn k master j (c, ts) = (c1, ts1)" by fastforce
  then show ?case using Cons.IH [of c1 ts1] thread_turn_length [of k master j c ts] by (simp add: run_threads_def)
qed (simp add: run_threads_def)

text \<open>A thread that has ended stays so.\<close>

lemma run_threads_ended:
  assumes "run_threads k master schedule (c, ts) = (c', ts')" "i < length ts" "ts ! i = None"
  shows "ts' ! i = None"
  using assms
proof (induction schedule arbitrary: c ts)
  case (Cons j schedule)
  obtain c1 ts1 where t: "thread_turn k master j (c, ts) = (c1, ts1)" by fastforce
  have "ts1 ! i = None"
    using t Cons.prems(3) thread_turn_other [of i j k master c ts c1 ts1] Cons.prems(2)
    by (cases "j = i") (auto simp: thread_turn_def split: if_splits)
  then show ?case
    using Cons t thread_turn_length [of k master j c ts] by (simp add: run_threads_def)
qed (simp add: run_threads_def)

lemma agree_sym: "agree i c d \<Longrightarrow> agree i d c"
  by (simp add: agree_def)

lemma forks_independent:
  assumes "i < length ts" "ts ! i = Some (ss, vm)" "run_threads k master schedule (c, ts) = (c', ts')"
    and "(fork_turn k master i ^^ count_list schedule i) (ss, c, vm) = (ss1, c1, vm1)"
  shows "ts' ! i = Some (ss1, vm1) \<and> length c' = length c1 \<and> (i < length c1 \<longrightarrow> c' ! i = c1 ! i)"
proof -
  have "ts' ! i = Some (ss1, vm1) \<and> agree i c' c1"
    if "run_threads k master schedule (c, ts) = (c', ts')" "i < length ts" "ts ! i = Some (ss, vm)" "agree i c d"
      "(fork_turn k master i ^^ count_list schedule i) (ss, d, vm) = (ss1, c1, vm1)" for c d ts ss vm
    using that
  proof (induction schedule arbitrary: c d ts ss vm)
    case Nil
    then show ?case by (simp add: run_threads_def)
  next
    case (Cons j schedule)
    obtain c2 ts2 where t: "thread_turn k master j (c, ts) = (c2, ts2)" by fastforce
    have rest: "run_threads k master schedule (c2, ts2) = (c', ts')" "i < length ts2"
      using Cons.prems(1,2) t thread_turn_length [of k master j c ts] by (simp_all add: run_threads_def)
    show ?case
    proof (cases "j = i")
      case False
      then have "ts2 ! i = Some (ss, vm)" "agree i c2 d"
        using thread_turn_other [OF _ t Cons.prems(2)] Cons.prems(3,4) by (auto simp: agree_def)
      then show ?thesis using Cons.IH [OF rest] Cons.prems(5) False by simp
    next
      case True
      obtain ss2 d2 vm2 where u: "fork_turn k master i (ss, d, vm) = (ss2, d2, vm2)"
        by (cases "fork_turn k master i (ss, d, vm)") auto
      obtain c3 where "fork_turn k master i (ss, c, vm) = (ss2, c3, vm2)" "agree i d2 c3"
        using own_counter.fork_turn_with_related [OF agree_sym [OF Cons.prems(4)] u [unfolded fork_turn_def]]
        by (auto simp: fork_turn_def)
      then have "ts2 ! i = Some (ss2, vm2)" "agree i c2 d2"
        using t True Cons.prems(2,3) by (auto simp: thread_turn_def agree_sym)
      then show ?thesis
        using Cons.IH [OF rest, of ss2 vm2 d2] Cons.prems(5) u True by (simp add: funpow_swap1)
    qed
  qed
  from this [OF assms(3,1,2) _ assms(4)] show ?thesis by (simp add: agree_def)
qed

text \<open>
  C10: The forks do not interfere: after any schedule of the threads a fork is where its own turns alone
  would have brought it, whatever the other forks and their guests did in between, and so is its reset
  counter.  What each guest does is given in advance; a storage machine the forks share is not part of
  the state.
\<close>

theorem forks_do_not_interfere:
  assumes "i < length ts" "ts ! i = Some (ss, vm)" "run_threads k master schedule (c, ts) = (c', ts')"
    and "(fork_turn k master i ^^ count_list schedule i) (ss, c, vm) = (ss1, c1, vm1)"
  shows "ts' ! i = Some (ss1, vm1) \<and> length c' = length c1 \<and> (i < length c1 \<longrightarrow> c' ! i = c1 ! i)"
  using assms by (rule forks_independent)

section \<open>All forks serve\<close>

text \<open>
  C11: Every fork that could be made is ready for a connection after any schedule of the threads in which
  whole turns are taken, provided the hypervisor can reset it and there is a counter for it (or the
  server is not verbose).
\<close>

theorem every_fork_is_idle_between_turns:
  assumes "\<forall>m options. \<exists>m'. reset_machine k m (m_machine master) options = Inr m'" "m_ephemeral master"
    and "counters_ok (m_config master) i c"
    and "run_threads k master schedule (c, start_threads k master storage_vm sessions) = (c', ts')"
    and "i < unat (concurrency (m_config master))" "start_fork k master storage_vm i = Inr (fork, storage_fork)"
  shows "\<exists>ss' vm'. ts' ! i = Some (ss', vm') \<and> idle vm'"
proof -
  let ?ts = "start_threads k master storage_vm sessions"
  have i: "i < length ?ts" "?ts ! i = Some (sessions i, fork)"
    using assms(5,6) by (simp_all add: start_threads_def)
  obtain ss1 c1 vm1 where own: "(fork_turn k master i ^^ count_list schedule i) (sessions i, c, fork) = (ss1, c1, vm1)"
    by (cases "(fork_turn k master i ^^ count_list schedule i) (sessions i, c, fork)") auto
  have "ts' ! i = Some (ss1, vm1)" using forks_independent [OF i assms(4) own] by simp
  moreover have "idle vm1" using fork_idle_after_turns [OF assms(1,2,6,3)] own by (metis snd_conv)
  ultimately show ?thesis by blast
qed

text \<open>The fork of a thread is in a state its steps lead to.\<close>

lemma resume_loop_rest:
  assumes "list_all session_ok ss" "resume_loop k f master ss (c, vm) = (x, rest, c', vm')"
  shows "list_all session_ok rest"
  using assms
proof (induction ss arbitrary: c vm)
  case (Cons s ss)
  then show ?case by (auto split: sum.splits option.splits prod.splits if_splits)
qed (auto split: sum.splits)

lemma fork_turn_steps:
  assumes "list_all session_ok ss" "fork_turn k master i (ss, c, vm) = (rest, c', vm')"
  shows "list_all session_ok rest \<and> (fork_step k (Some (count_reset (m_config master) i)) master)\<^sup>*\<^sup>* vm vm'"
proof -
  let ?f = "count_reset (m_config master) i"
  obtain x r1 c1 v where x: "resume_fork k (Some ?f) master ss (c, vm) = (x, r1, c1, v)"
    by (cases "resume_fork k (Some ?f) master ss (c, vm)")
  have "list_all session_ok r1"
    using x assms(1) resume_loop_rest [OF assms(1), of k "Some ?f" master c vm]
    by (auto simp: resume_fork_def split: if_splits list.splits option.splits prod.splits)
  moreover have "rest = r1"
    using assms(2) x by (cases x) (auto simp: fork_turn_def fork_turn_with_def split: if_splits)
  moreover have "debugged_turn k ?f [] no_debugger master (ss, c, vm) = Going (rest, c', vm')"
    using assms(2) debugged_turn_plain [of "[]" k ?f] by (simp add: getenv_def fork_turn_def)
  from debugged_turn_steps [OF this assms(1)] have "(fork_step k (Some ?f) master)\<^sup>*\<^sup>* vm vm'"
    by (simp add: no_debugger_def)
  ultimately show ?thesis by simp
qed

lemma fork_turns_steps:
  assumes "list_all session_ok ss" "(fork_turn k master i ^^ n) (ss, c, vm) = (rest, c', vm')"
  shows "list_all session_ok rest \<and> (fork_step k (Some (count_reset (m_config master) i)) master)\<^sup>*\<^sup>* vm vm'"
  using assms(2)
proof (induction n arbitrary: rest c' vm')
  case (Suc n)
  obtain ss1 c1 v where t: "(fork_turn k master i ^^ n) (ss, c, vm) = (ss1, c1, v)"
    by (cases "(fork_turn k master i ^^ n) (ss, c, vm)")
  then have "fork_turn k master i (ss1, c1, v) = (rest, c', vm')" using Suc.prems by simp
  then show ?case using Suc.IH [OF t] fork_turn_steps rtranclp_trans by metis
qed (use assms(1) in simp)

lemma threads_follow_steps:
  assumes "run_threads k master schedule (c, start_threads k master storage_vm sessions) = (c', ts')"
    and "i < length ts'" "ts' ! i = Some (ss, vm)" "list_all session_ok (sessions i)"
  obtains fork where "new_fork k master (word_of_nat i) False = Inr fork"
    "(fork_step k (Some (count_reset (m_config master) i)) master)\<^sup>*\<^sup>* fork vm"
proof -
  let ?ts = "start_threads k master storage_vm sessions"
  have len: "i < length ?ts" using assms(1,2) run_threads_length by (metis snd_conv)
  obtain x where x: "?ts ! i = Some x"
    using assms(3) run_threads_ended [OF assms(1) len] by (cases "?ts ! i") auto
  then obtain fork storage_fork where f: "start_fork k master storage_vm i = Inr (fork, storage_fork)"
      "x = (sessions i, fork)"
    using len by (auto simp: start_threads_def split: sum.splits prod.splits)
  obtain f0 where f0: "new_fork k master (word_of_nat i) False = Inr f0"
      "fork = link_storage (m_config master) storage_fork f0"
    by (rule start_fork_cases [OF f(1)])
  obtain ss1 c1 vm1 where own: "(fork_turn k master i ^^ count_list schedule i) (sessions i, c, fork) = (ss1, c1, vm1)"
    by (cases "(fork_turn k master i ^^ count_list schedule i) (sessions i, c, fork)")
  have "vm = vm1" using forks_independent [OF len x [unfolded f(2)] assms(1) own] assms(3) by simp
  then have "(fork_step k (Some (count_reset (m_config master) i)) master)\<^sup>*\<^sup>* fork vm"
    using fork_turns_steps [OF assms(4) own] by simp
  moreover have "(fork_step k (Some (count_reset (m_config master) i)) master)\<^sup>*\<^sup>* f0 fork"
    using f0(2) by (auto simp: link_storage_def intro: fork_step.link split: option.splits)
  ultimately show thesis using that f0(1) by (meson rtranclp_trans)
qed

section \<open>Witnesses\<close>

text \<open>Two forks of the example master that take turns.\<close>

definition two_forks :: "nat VirtualMachine" where
  "two_forks = example_master\<lparr>m_config := (m_config example_master)\<lparr>concurrency := 2\<rparr>\<rparr>"

definition example_sessions :: "nat \<Rightarrow> nat session list" where
  "example_sessions i = [example_session, client_session]"

lemma example_forks: "\<exists>fork. start_fork example_kvm two_forks None i = Inr (fork, None)"
  by (simp add: start_fork_def new_fork_def example_kvm_def)

theorem every_fork_is_idle_between_turns_witness:
  "\<exists>ss' vm'. snd (run_threads example_kvm two_forks [1, 0, 1]
     (new_counters, start_threads example_kvm two_forks None example_sessions)) ! 1 = Some (ss', vm') \<and> idle vm'"
proof -
  obtain fork where f: "start_fork example_kvm two_forks None 1 = Inr (fork, None)" using example_forks by blast
  have t: "\<forall>m options. \<exists>m'. reset_machine example_kvm m (m_machine two_forks) options = Inr m'"
    by (simp add: example_kvm_def)
  have m: "m_ephemeral two_forks" "counters_ok (m_config two_forks) 1 new_counters"
      "1 < unat (concurrency (m_config two_forks))"
    by (simp_all add: two_forks_def example_master_def counters_ok_def new_counters_def)
  show ?thesis
    using every_fork_is_idle_between_turns [OF t m(1,2) _ m(3) f] by (metis prod.collapse)
qed

theorem forks_do_not_interfere_witness:
  "\<exists>ss vm. snd (run_threads example_kvm two_forks [1, 0]
     (new_counters, start_threads example_kvm two_forks None example_sessions)) ! 1 = Some (ss, vm)"
proof -
  let ?ts = "start_threads example_kvm two_forks None example_sessions"
  obtain fork where "start_fork example_kvm two_forks None 1 = Inr (fork, None)" using example_forks by blast
  then have i: "1 < length ?ts" "?ts ! 1 = Some (example_sessions 1, fork)"
    by (simp_all add: start_threads_def two_forks_def)
  show ?thesis using forks_do_not_interfere [OF i] by (metis prod.collapse)
qed

end
