(* ===== verification/Spec2Isabelle.thy ===== *)
theory Spec2Isabelle
  imports Threads
begin

text \<open>
  A verification development for kvmserver, the server that runs a program inside a KVM virtual machine
  and answers each connection from a copy-on-write fork of it.

  \<^bold>\<open>The program.\<close>  \<open>main\<close> (src/src/main.cpp) reads a \<open>Configuration\<close> from the command line (config.cpp),
  initialises the hypervisor, maps the program into memory (mmap_file.hpp) and makes a \<open>VirtualMachine\<close> for
  it (vm.cpp), and one for a storage program when asked.  \<open>initialize\<close> runs the program until it polls a
  listening socket the configuration allows; \<open>warmup\<close> (warmup.cpp) sends it requests from a client thread;
  its state can be saved in a snapshot and loaded from one (vm_state.cpp).  Then each thread makes a fork
  of the machine.  An ephemeral fork takes one connection, and when its guest closes it the fork is reset
  to the master and takes the next one.  All a guest does outside its memory goes through callbacks: files
  are looked up in the table of allowed paths, and socket addresses in the allow lists.

  \<^bold>\<open>Theories\<close>, in import order, with the code they model.
  \<^item> \<open>Prelude\<close>: machine integers, results of operations that throw (\<open>then_do\<close>, \<open>fold_result\<close>), programs with a
    state that an exception does not undo and that may not return (\<open>and_then\<close>, \<open>rescue\<close>), lemmas on lists and
    words, the locale \<open>step_system\<close> of invariants of step relations.
  \<^item> \<open>FsPath\<close>: the part of \<open>std::filesystem::path\<close> the code uses; \<open>OrderedMap\<close>: \<open>std::map\<close> as a sorted list,
    with the locales \<open>key_order\<close> and \<open>segment_order\<close> and their interpretation \<open>path_map\<close> on \<open>ComparePathSegments\<close>.
  \<^item> \<open>AllowedPaths\<close>: \<open>ensure_path\<close> (config.cpp) and \<open>lookup_allowed_path\<close> with the open and symlink callbacks
    (vm.cpp).  The lookup is equal to a reference definition, the most specific entry that grants the
    access; a granted path stays below the real path of its entry; the failsafe of the loop ends only
    searches without a result; \<open>ensure_path\<close> refines a map update.
  \<^item> \<open>TextParse\<close>, \<open>Options\<close>: \<open>split\<close>, number parsing, \<open>add_remapping\<close>, volumes, \<open>lookup_program\<close> and the
    environment of the guest (config.cpp); exact results on the documented forms, and the two places where
    the code differs from its help text: the order of the paths of a volume, and an empty permission part.
  \<^item> \<open>Sockets\<close>, \<open>Addresses\<close>: \<open>validate_network_access\<close> (vm.cpp) on the 128 bytes of a \<open>sockaddr_storage\<close>, and
    \<open>parse_addresses\<close> (config.cpp): what each form of a value allows, and three defects of the code.
  \<^item> \<open>Configuration\<close>: \<open>Configuration::FromArgs\<close> on parsed options.  Which files and addresses a configuration
    opens, exactly; that it is well formed; the memory limits with their 32-bit wrap-around.
  \<^item> \<open>Elf\<close>: the ELF checks and the options of a machine; \<open>Files\<close>: \<open>MmapFile\<close>, \<open>file_loader\<close> (file.cpp) and
    \<open>init_kvm\<close>, with the descriptors, mappings and streams of the process as state.
  \<^item> \<open>VirtualMachine\<close>: the members, both constructors with the callbacks they install, the handler of unknown
    system calls with the guest library (api/libkvmserverguest.c) and the socket callbacks; the locale
    \<open>socket_policy\<close> is what the three of them promise, interpreted on each.
  \<^item> \<open>Debugger\<close>: \<open>open_debugger\<close>; the locale \<open>kept_by_runs\<close> is what a run of a guest keeps, and so does the
    debugger.
  \<^item> \<open>Forks\<close>: the callbacks of an ephemeral fork, \<open>reset_to\<close> and \<open>resume_fork\<close>.  The step relation \<open>fork_step\<close>
    is the fork under any guest; by an invariant of it a fork blocks connections exactly while it tracks
    one and takes at most one per session; it refines the abstract server \<open>one_connection\<close>, and it starts
    each session from the state of the master.
  \<^item> \<open>Snapshot\<close>, \<open>Boot\<close>, \<open>WarmupClient\<close>: \<open>save_state\<close> and \<open>load_state\<close>, with the effect of its \<open>epoll_ctl\<close> calls
    on the kernel's registrations; what a program is started with, and its environment; the callbacks of \<open>initialize\<close> and \<open>warmup\<close>
    and a run of the master; the client with its threads, and \<open>warmup\<close>.
  \<^item> \<open>Initialize\<close>: \<open>initialize\<close> in all its modes, with its exception handlers.  A program that is started waits
    on a socket that passed the check, one that is started from a snapshot waits where it was saved, and
    the sampling mode never ends.
  \<^item> \<open>Server\<close>: \<open>main\<close> on the state of the process, with its exit codes, and the loop of a single machine.
  \<^item> \<open>ForkThread\<close>, \<open>Threads\<close>: the thread of a fork, the reset counters, and the threads under any schedule.
    The locales \<open>related_callbacks\<close> and \<open>callback_invariant\<close> are the contract of a reset callback, interpreted
    on the counters: forks do not interfere, and each is ready again after its turns.
  This theory adds the composition of all of them, from the command line to a guest.

  \<^bold>\<open>How the code is read.\<close>  A class is a record, a function that throws gives \<open>Inl\<close> of the exception, a member
  function takes and gives the record.  Integers have their width where the code depends on it.  The guest
  is arbitrary: a run of a machine is a list of events, one for each callback the hypervisor invokes, and
  the theorems hold for all lists.  A session that does not end is a list that ends before it does
  (\<open>StillRunning\<close>), so the length of a list is a bound of what is looked at and not of the program; a function
  that may wait for ever (the client of the warm-up, the debugger, the sampling mode) gives \<open>None\<close> then, and
  when it does is proved.  The one counter of the code itself, the failsafe of the path lookup, is a
  parameter of the loop that starts at the size of the table as in the code; against the search without it
  (\<open>lookup_unbounded\<close>) it is proved to lose no grant and to end exactly the searches that would never end.

  \<^bold>\<open>Parameters\<close>, with what is assumed of them as named hypotheses: the hypervisor \<open>tinykvm\<close> (the record
  \<open>tinykvm\<close>: it creates, forks and resets machines; a reset keeps the callbacks that are installed and, where
  a theorem says so, copies the memory of the master, and its registers when the options ask for it;
  \<open>prepare_copy_on_write\<close> and \<open>setup_linux\<close> are taken to succeed), the answers of the operating system and of
  the C library's name services, and the command line parser CLI11, of which the model takes the results.

  \<^bold>\<open>Not modelled.\<close>  Messages and time measurements, which change no state; what a remote call to a storage
  machine does, which is inside the hypervisor (the link, the mutex and the request are modelled): the
  memory of a storage machine that forks share is outside the state of \<open>Threads\<close>, and what the guest of a
  thread does is a script of its own, fixed in advance; a descriptor that is used again for another address
  while a program starts (\<open>boot_event_ok\<close>); option syntax, help
  and configuration files, which are inside CLI11; the example programs under src/examples.  The
  schedules of \<open>Threads\<close> are those of a server without \<open>DEBUG\<close>; \<open>debugged_turn\<close> is a turn with it.
\<close>

section \<open>The sandbox from the command line to the guest\<close>

text \<open>
  The states of a machine while its program starts: it is made, linked and prepared, it runs, in whatever
  mode, and its warm-up begins, after which it runs again.
\<close>

inductive starting :: "('m, 'e) world \<Rightarrow> Configuration \<Rightarrow> 'm VirtualMachine \<Rightarrow> bool" for w config where
  prepared: "new_machine (hypervisor w) ld binary config is_storage = Inr vm \<Longrightarrow>
    starting w config (prepare_boot (hypervisor w) (link_storage config storage_vm vm))"
| run: "starting w config vm \<Longrightarrow> guest_run (path_access w) ws es vm = (r, vm') \<Longrightarrow> starting w config vm'"
| warmup: "starting w config vm \<Longrightarrow> starting w config (install_warmup (vm\<lparr>m_waiting_for_requests := False\<rparr>))"

text \<open>
  The states a guest can be in: in a machine while its program starts, in the machine that is served
  alone, or in a fork of the program or of the storage program.
\<close>

inductive guest_of :: "('m, 'e) world \<Rightarrow> Configuration \<Rightarrow> server_state \<Rightarrow> 'm VirtualMachine \<Rightarrow> bool"
  for w config s where
  starts: "starting w config guest \<Longrightarrow> guest_of w config s guest"
| alone: "server_main w config s = Some (ServeAlone vm, s') \<Longrightarrow>
    serve_alone (path_access w) (variables w) runs vm = Some (r, guest) \<Longrightarrow> guest_of w config s guest"
| in_fork: "server_main w config s = Some (x, s') \<Longrightarrow> master \<in> set (served x) \<Longrightarrow>
    new_fork (hypervisor w) master reqid is_storage = Inr fork \<Longrightarrow>
    (fork_step (hypervisor w) (on_reset :: (counters \<Rightarrow> vm_error + counters) option) master)\<^sup>*\<^sup>* fork guest \<Longrightarrow>
    guest_of w config s guest"

lemma same_program_sandboxed:
  "m_config vm = config \<and> guarded vm \<Longrightarrow> same_program vm vm' \<Longrightarrow> m_config vm' = config \<and> guarded vm'"
  by (simp add: same_program_def guarded_def)

lemma starting_sandboxed: "starting w config vm \<Longrightarrow> m_config vm = config \<and> guarded vm"
proof (induction rule: starting.induct)
  case (prepared ld binary is_storage vm storage_vm)
  then show ?case
    using new_machine_keeps(1,3) [OF prepared prepare_boot_same_program [of "link_storage config storage_vm vm"]] by simp
next
  case (run vm ws es r vm')
  from run(3) kept_program.run_keeps [OF TrueI run(2)] show ?case by (rule same_program_sandboxed)
next
  case (warmup vm)
  from warmup(2) install_warmup_same_program show ?case by (rule same_program_sandboxed)
qed

lemma guest_of_sandboxed: "guest_of w config s guest \<Longrightarrow> m_config guest = config \<and> guarded guest"
proof (induction rule: guest_of.induct)
  case (starts guest)
  then show ?case by (rule starting_sandboxed)
next
  case (alone vm s' runs r guest)
  have "m_config vm = config \<and> guarded vm" by (rule served_machines [OF alone(1)]) simp
  then show ?case by (rule same_program_sandboxed) (rule serve_alone_same_program [OF alone(2)])
next
  case (in_fork x s' master reqid is_storage fork on_reset guest)
  have "guarded fork" "m_config fork = config"
    using guards_new_fork [OF in_fork(3)] new_fork_ready(5) [OF in_fork(3)] served_machines [OF in_fork(1,2)]
    by simp_all
  then show ?case using fork_steps_same [OF in_fork(4)] by (simp add: same_vm_iff guarded_def guards_def)
qed

text \<open>The forks of the threads are among them, whatever the schedule.\<close>

lemma threads_run_guests:
  assumes "server_main w config s = Some (ServeForks master storage_vm, s')"
    and "run_threads (hypervisor w) master schedule
      (c, start_threads (hypervisor w) master storage_vm sessions) = (c', ts')"
    and "i < length ts'" "ts' ! i = Some (ss, vm)" "list_all session_ok (sessions i)"
  shows "guest_of w config s vm"
  by (rule threads_follow_steps [OF assms(2-5)], rule guest_of.in_fork [OF assms(1)]) auto

text \<open>
  C4: Without network options the network is out of reach from end to end: whatever a guest has done, in
  a machine while its program starts, in the machine that is served alone, or in a fork of the program
  or of the storage program, it cannot connect or bind to any address that is not a unix socket.
\<close>

theorem sandboxed_server_has_no_network:
  assumes "from_args h cli config = Inr (written, c)" "\<not> allow_all cli"
    and "list_all (\<lambda>v. v = [] \<or> v = ''false'') (allow_net cli @ allow_connect cli @ allow_listen cli)"
    and "allowed_connect_ipv4 config = []" "allowed_connect_ipv6 config = []"
    and "guest_of w c s guest" "ss_family sa \<noteq> AF_UNIX"
  shows "\<not> guest_connects checks guest sa \<and> \<not> guest_binds checks guest sa"
proof -
  note guest = guest_of_sandboxed [OF assms(6)]
  have "\<not> validate_network_access sa (allowed_connect_ipv4 c) (allowed_connect_ipv6 c)"
    "\<not> validate_network_access sa (allowed_listen_ipv4 c) (allowed_listen_ipv6 c)"
    using no_network_options [OF assms(1-5)] by auto
  then show ?thesis
    using connect.other_socket [OF assms(7), of checks guest] bind.other_socket [OF assms(7), of checks guest]
      guarded_decisions(3,4) [of guest checks sa] guest by simp
qed

text \<open>
  C3: The files a guest can open are exactly those the command line gives, from end to end: wherever the
  guest runs and whatever it has done, it can read a path if and only if it lies at or below a path given
  with \<open>--allow-read\<close>, a volume with permission \<open>r\<close>, the three device files, the two files the server
  provides or the program itself; and write it if and only if it lies at or below a path given with
  \<open>--allow-write\<close>, a volume with permission \<open>w\<close>, \<open>/dev/null\<close> or \<open>/dev/zero\<close>.
\<close>

theorem guests_open_exactly_the_granted_files:
  assumes "from_args h cli config = Inr (written, c)" "allowed_paths config = []"
    and "normal_abs (current_path (files h))" "guest_of w c s guest"
    and "has_root (path_of_string cwd) \<or> has_root (path_of_string path)"
  shows "(fst (guest_opens_readable guest cwd path) \<longleftrightarrow>
      (\<exists>k \<in> readable_paths (current_path (files h)) (apply_allow_all cli) (main_filename c).
         prefix (elems k) (elems (requested_path cwd path)))) \<and>
    (fst (guest_opens_writable guest cwd path) \<longleftrightarrow>
      (\<exists>k \<in> writable_paths (current_path (files h)) (apply_allow_all cli).
         prefix (elems k) (elems (requested_path cwd path))))"
  using configured_files [OF assms(1-3,5)] guarded_decisions(1,2) [of guest cwd path]
    guest_of_sandboxed [OF assms(4)] by simp

text \<open>A program that waits on a unix socket it may use, under the quiet command line.\<close>

definition unix_socket_checks :: path_checks where
  "unix_socket_checks = \<lparr>is_writable_path = (\<lambda>_. True), is_readable_path = (\<lambda>_. True)\<rparr>"

definition unix_boot :: "nat boot_event list" where
  "unix_boot = [Listening 4 3 (Some (set_field 0 AF_UNIX sockaddr_zero)), EpollWait [4]]"

lemma quiet_configuration:
  assumes "from_args example_machine quiet_cli example_start = Inr (w, c)"
  shows "main_filename c = ''/usr/bin/server''" "\<not> storage c" "just_one_vm c" "warmup_connect_requests c = 0"
proof -
  obtain vmem smem m s f table env n where steps:
    "fold_result (subcommand_callback example_machine (apply_allow_all quiet_cli)) (remdups (subcommands quiet_cli))
       (example_start\<lparr>vmem_remappings := vmem, storage_remappings := smem\<rparr>) =
     Inr (example_start\<lparr>vmem_remappings := vmem, storage_remappings := smem,
            main_filename := m, storage := s, storage_filename := f\<rparr>)"
    "fill_networks (services example_machine) (apply_allow_all quiet_cli) (example_start\<lparr>vmem_remappings := vmem,
       storage_remappings := smem, main_filename := m, storage := s, storage_filename := f,
       concurrency := (if concurrency example_start = 0 then ucast (hardware_concurrency example_machine)
                       else concurrency example_start),
       allowed_paths := table, environ := env\<rparr>) = Inr n"
    "c = scale_memory n"
    by (rule from_args_steps [OF assms])
  have lookup: "lookup_program (files example_machine) (main_filename example_start) = Inr ''/usr/bin/server''"
    by code_simp
  have cli: "subcommands quiet_cli = [Run]" "subcommands (apply_allow_all quiet_cli) = [Run]"
    by (simp_all add: apply_allow_all_def quiet_cli_def example_cli_def)
  from steps(1) have sub: "m = ''/usr/bin/server''" "s = storage example_start"
    by (simp_all add: cli run_callback_def lookup)
      (auto dest: arg_cong [of _ _ main_filename] arg_cong [of _ _ storage])
  have start: "\<not> storage example_start" "concurrency example_start = 1" "\<not> ephemeral example_start"
      "warmup_connect_requests example_start = 0"
    by (simp_all add: example_start_def default_configuration_def)
  from steps(2,3) show "main_filename c = ''/usr/bin/server''" "\<not> storage c" "just_one_vm c"
      "warmup_connect_requests c = 0"
    by (auto elim!: fill_networks_cases simp: scale_memory_def Let_def sub start just_one_vm_def)
qed

text \<open>A program that is served alone on a unix socket.\<close>

definition unix_run :: "nat program_run" where
  "unix_run = example_run\<lparr>boot_script := unix_boot, warmup_script := []\<rparr>"

definition unix_world :: "(nat, nat) world" where
  "unix_world = example_world\<lparr>path_access := unix_socket_checks, main_program := unix_run\<rparr>"

lemma unix_machine:
  assumes "just_one_vm c" "warmup_connect_requests c = 0"
  obtains vm v saved where "new_machine example_kvm ld example_binary c False = Inr vm"
    "initialize example_kvm unix_socket_checks [] no_snapshot unix_run
       (Some (warmup unix_socket_checks peers (warmup_script unix_run))) True (cl, vm) = Some (Inr saved, cl, v)"
    "m_waiting_for_requests v" "m_poll_method v = Epoll"
proof -
  have base: "detect_gigapage_from (is_dynamic_elf example_kvm) example_binary hint = Inr 0x80000000" for hint
  proof -
    have "\<not> is_dynamic (is_dynamic_elf example_kvm example_binary)" by (simp add: example_kvm_def)
    moreover have "detect_gigapage_from (is_dynamic_elf example_kvm) example_binary 0 = Inr 0x80000000" by code_simp
    ultimately show ?thesis by (simp add: detect_gigapage_from_def)
  qed
  have family: "ss_family (set_field 0 AF_UNIX sockaddr_zero) = AF_UNIX" by code_simp
  have interp: "is_dynamic_elf example_kvm b = \<lparr>is_dynamic = False, has_interpreter = False\<rparr>" for b
    by (simp add: example_kvm_def)
  have boot: "boot_script unix_run = unix_boot" "getenv [] name = None" for name
    by (simp_all add: unix_run_def getenv_def)
  obtain vm where vm: "new_machine example_kvm ld example_binary c False = Inr vm"
    by (simp add: new_machine_def main_options_def base) (simp add: example_kvm_def)
  have fields: "m_config vm = c" "\<not> m_is_storage vm" "m_tracked_client_vfd vm = - 1"
    using vm by (auto simp: new_machine_def then_do_Inr_iff)
  obtain saved v where "initialize example_kvm unix_socket_checks [] no_snapshot unix_run
       (Some (warmup unix_socket_checks peers (warmup_script unix_run))) True (cl, vm) = Some (Inr saved, cl, v)"
      "m_waiting_for_requests v" "m_poll_method v = Epoll"
    by (simp add: initialize_def rescue_def initialize_body_def after_run_def run_program_def boot guest_run_def machine_run_def
        unix_boot_def boot_event_def prepare_boot_def Let_def interp and_then_def finish_and_save_def
        boot_listening_def validate_listener_def family unix_socket_checks_def boot_epoll_wait_def wait_with_def
        stop_def warmup_def finish_boot_def set_registers_def no_snapshot_def fields assms)
  with vm that show thesis by blast
qed

lemma unix_program_is_served:
  assumes "main_filename c \<noteq> []" "\<not> storage c" "just_one_vm c" "warmup_connect_requests c = 0"
  obtains vm s' where "server_main unix_world c new_process = Some (ServeAlone vm, s')"
proof -
  have world: "hypervisor unix_world = example_kvm" "path_access unix_world = unix_socket_checks"
      "variables unix_world = []" "system unix_world = example_os" "main_snapshot unix_world = no_snapshot"
      "main_program unix_world = unix_run"
    by (simp_all add: unix_world_def example_world_def)
  obtain s0 where init: "init_globals example_os new_process = Some (Inr (), s0)"
    by (simp add: init_globals_def init_kvm_def file_loader_def example_os_def example_stdio_def Let_def)
  obtain f p where f: "new_MmapFile (file_os example_os) (main_filename c) (process s0) = (Inr f, p)"
    using assms(1) init_globals_returns [OF init]
    by (simp add: new_MmapFile_def example_os_def binary_files_def example_files_def new_process_def empty_process_def
        Let_def MAP_FAILED_def)
  define s1 where "s1 = keep_binary f (s0\<lparr>process := p\<rparr>)"
  have view: "load_view (process s1) f = Inr example_binary"
    using read_whole_file [OF f example_os_ok] by (simp add: s1_def load_view_def example_os_def binary_files_def)
  obtain vm v saved where vm: "new_machine example_kvm (ld_linux_x86_64_so (kvm s1)) example_binary c False = Inr vm"
      "initialize example_kvm unix_socket_checks [] no_snapshot unix_run
        (Some (warmup unix_socket_checks (warmup_peers unix_world) (warmup_script unix_run))) True (client s1, vm)
        = Some (Inr saved, client s1, v)"
      "m_waiting_for_requests v" "m_poll_method v = Epoll"
    by (rule unix_machine [OF assms(3,4)])
  obtain f' where "dontneed (file_os example_os) f = Inr f'"
    by (cases "m_mmap f = 0") (simp_all add: dontneed_def example_os_def binary_files_def example_files_def)
  then have "load_program unix_world c f None s1 = Some (Inr (ServeAlone v), keep_binary f' s1)"
    using view vm assms(3)
    by (simp add: load_program_def start_program_def make_machine_def on_machine_def and_then_def lift_result_def
        drop_pages_def begin_serving_def serve_single_def link_storage_def restart_poll_syscall_def world)
  then have "main_body unix_world c new_process = Some (Inr (ServeAlone v), keep_binary f' s1)"
    using init f assms(2) by (simp add: main_body_def and_then_def map_file_def load_storage_def lift_result_def
        world s1_def)
  then show thesis using that by (simp add: server_main_def)
qed

text \<open>One of its guests, under the quiet command line.\<close>

definition unix_guest :: "nat VirtualMachine \<Rightarrow> nat VirtualMachine" where
  "unix_guest vm = snd (the (serve_alone unix_socket_checks [] [([BootSyscall 41], no_debugger)] vm))"

lemma unix_guest:
  assumes "from_args example_machine quiet_cli example_start = Inr (w, c)"
  obtains vm s' where "server_main unix_world c new_process = Some (ServeAlone vm, s')"
    "guest_of unix_world c new_process (unix_guest vm)"
proof -
  obtain vm s' where run: "server_main unix_world c new_process = Some (ServeAlone vm, s')"
    by (rule unix_program_is_served [OF _ quiet_configuration(2-4) [OF assms]])
      (simp_all add: quiet_configuration(1) [OF assms])
  obtain v where "serve_alone unix_socket_checks [] [([BootSyscall 41], no_debugger)] vm = Some (None, v)"
    using serve_alone_goes_on [of "[]"] by (metis find.simps(1) getenv_def option.map_disc_iff)
  then have "guest_of unix_world c new_process (unix_guest vm)"
    using guest_of.alone [OF run, of "[([BootSyscall 41], no_debugger)]" None v]
    by (simp add: unix_guest_def unix_world_def example_world_def del: serve_alone.simps)
  with run that show thesis by blast
qed

theorem sandboxed_server_has_no_network_witness:
  "\<exists>w c vm s'. from_args example_machine quiet_cli example_start = Inr (w, c) \<and>
    server_main unix_world c new_process = Some (ServeAlone vm, s') \<and>
    \<not> guest_connects unix_socket_checks (unix_guest vm) (set_field 0 AF_INET sockaddr_zero)"
proof -
  obtain w c where c: "from_args example_machine quiet_cli example_start = Inr (w, c)"
    using example_accepted(2) by blast
  have cli: "\<not> allow_all quiet_cli" "list_all (\<lambda>v. v = [] \<or> v = ''false'')
      (allow_net quiet_cli @ allow_connect quiet_cli @ allow_listen quiet_cli)"
    by (simp_all add: quiet_cli_def example_cli_def)
  obtain vm s' where run: "server_main unix_world c new_process = Some (ServeAlone vm, s')"
      "guest_of unix_world c new_process (unix_guest vm)"
    by (rule unix_guest [OF c])
  have sa: "ss_family (set_field 0 AF_INET sockaddr_zero) \<noteq> AF_UNIX" by code_simp
  from sandboxed_server_has_no_network [OF c cli example_start_facts(3,4) run(2) sa] c run
  show ?thesis by blast
qed

theorem guests_open_exactly_the_granted_files_witness:
  "\<exists>w c vm s'. from_args example_machine quiet_cli example_start = Inr (w, c) \<and>
    server_main unix_world c new_process = Some (ServeAlone vm, s') \<and>
    (fst (guest_opens_writable (unix_guest vm) ''/'' ''/etc/passwd'') \<longleftrightarrow>
      (\<exists>k \<in> writable_paths (current_path (files example_machine)) (apply_allow_all quiet_cli).
         prefix (elems k) (elems (requested_path ''/'' ''/etc/passwd''))))"
proof -
  obtain w c where c: "from_args example_machine quiet_cli example_start = Inr (w, c)"
    using example_accepted(2) by blast
  obtain vm s' where run: "server_main unix_world c new_process = Some (ServeAlone vm, s')"
      "guest_of unix_world c new_process (unix_guest vm)"
    by (rule unix_guest [OF c])
  have "has_root (path_of_string ''/'') \<or> has_root (path_of_string ''/etc/passwd'')" by code_simp
  from guests_open_exactly_the_granted_files [OF c example_start_facts(1,2) run(2) this] c run
  show ?thesis by blast
qed

end
